theory Spec2Isabelle
  imports Main "HOL-Library.Multiset"
begin

section \<open>The timeline page: markup, jQuery selections and the re-sort\<close>

subsection \<open>JavaScript values read by the comparator\<close>

text \<open>
  The comparator of \<open>sortUsingNestedText\<close> reads either an \<open>id\<close> attribute (a string, or
  \<open>undefined\<close> when no element is selected or the attribute is absent) or the result of
  \<open>parseInt\<close> on a text (a number, or \<open>NaN\<close>). Both are options here: \<open>None\<close> is \<open>undefined\<close>
  for the attribute and \<open>NaN\<close> for the number. A number is the \<open>int\<close> that the double
  is equal to: what \<open>parseInt\<close> returns is always a whole number.
\<close>

text \<open>Strings compare by code unit, left to right; a proper prefix is smaller.\<close>

fun str_lt :: "string \<Rightarrow> string \<Rightarrow> bool" where
  "str_lt [] [] = False"
| "str_lt [] (y # ys) = True"
| "str_lt (x # xs) [] = False"
| "str_lt (x # xs) (y # ys) =
     ((of_char x :: nat) < of_char y \<or> (x = y \<and> str_lt xs ys))"

text \<open>
  \<open>a < b\<close> on two attribute values: the string order when both are strings; with
  \<open>undefined\<close> on either side the operands become \<open>NaN\<close> and the answer is \<open>false\<close>.
\<close>

fun js_lt_str :: "string option \<Rightarrow> string option \<Rightarrow> bool" where
  "js_lt_str (Some a) (Some b) = str_lt a b"
| "js_lt_str _ _ = False"

text \<open>\<open>a < b\<close> on two numbers: \<open>false\<close> as soon as one of them is \<open>NaN\<close>.\<close>

fun js_lt_num :: "int option \<Rightarrow> int option \<Rightarrow> bool" where
  "js_lt_num (Some a) (Some b) = (a < b)"
| "js_lt_num _ _ = False"

text \<open>
  \<open>parseInt(s)\<close> with no radix: leading white space is skipped, one sign is read, a
  \<open>0x\<close> or \<open>0X\<close> prefix selects radix 16, and the longest run of digits of the radix is
  the value; no digit at all gives \<open>NaN\<close>. Whatever follows the digits is ignored. A
  character of a string is a code unit below 256; the white space among these is the
  range from tab to carriage return, the space and the no-break space.

  The value is a double: \<open>to_double\<close> rounds the integer the digits denote to 53
  significant bits, to the nearest and to even on a tie, so that two counts above
  \<open>2 ^ 53\<close> can become the same number. What is too large for a double becomes
  \<open>Infinity\<close>, written here as \<open>2 ^ 1024\<close>, which is above every double.
\<close>

definition is_space :: "char \<Rightarrow> bool" where
  "is_space c =
     ((of_char c :: nat) = 32 \<or> (9 \<le> (of_char c :: nat) \<and> (of_char c :: nat) \<le> 13) \<or>
      (of_char c :: nat) = 160)"

definition digit_val :: "nat \<Rightarrow> char \<Rightarrow> nat option" where
  "digit_val radix c =
     (let n = (of_char c :: nat);
          v = (if 48 \<le> n \<and> n \<le> 57 then Some (n - 48)
               else if 97 \<le> n \<and> n \<le> 122 then Some (n - 87)
               else if 65 \<le> n \<and> n \<le> 90 then Some (n - 55)
               else None)
      in case v of None \<Rightarrow> None | Some d \<Rightarrow> if d < radix then Some d else None)"

fun digits_prefix :: "nat \<Rightarrow> string \<Rightarrow> nat list" where
  "digits_prefix radix [] = []"
| "digits_prefix radix (c # cs) =
     (case digit_val radix c of None \<Rightarrow> [] | Some d \<Rightarrow> d # digits_prefix radix cs)"

fun strip_sign :: "string \<Rightarrow> int \<times> string" where
  "strip_sign [] = (1, [])"
| "strip_sign (c # cs) =
     (if c = CHR ''-'' then (- 1, cs) else if c = CHR ''+'' then (1, cs) else (1, c # cs))"

fun strip_radix :: "string \<Rightarrow> nat \<times> string" where
  "strip_radix (z # x # cs) =
     (if z = CHR ''0'' \<and> (x = CHR ''x'' \<or> x = CHR ''X'') then (16, cs) else (10, z # x # cs))"
| "strip_radix cs = (10, cs)"

function bit_length :: "int \<Rightarrow> nat" where
  "bit_length n = (if n \<le> 0 then 0 else Suc (bit_length (n div 2)))"
  by pat_completeness auto
termination
  by (relation "measure nat") auto

definition to_double :: "int \<Rightarrow> int" where
  "to_double n =
     (if n < 2 ^ 53 then n
      else
        (let e = bit_length n - 53;
             q = n div 2 ^ e;
             r = n mod 2 ^ e;
             q1 = (if 2 ^ e < 2 * r \<or> (2 * r = 2 ^ e \<and> odd q) then q + 1 else q)
         in if 2 ^ 1024 \<le> q1 * 2 ^ e then 2 ^ 1024 else q1 * 2 ^ e))"

definition parseInt :: "string \<Rightarrow> int option" where
  "parseInt s =
     (case strip_sign (dropWhile is_space s) of (sign, s1) \<Rightarrow>
      case strip_radix s1 of (radix, s2) \<Rightarrow>
      case digits_prefix radix s2 of
        [] \<Rightarrow> None
      | d # ds \<Rightarrow>
          Some (sign * to_double (int (foldl (\<lambda>acc k. acc * radix + k) 0 (d # ds)))))"

subsection \<open>Markup\<close>

text \<open>
  A node of the page is a text node or an element with its tag name, its \<open>id\<close> attribute
  when it has one, its class names and its child nodes. Inline styles are kept apart (see
  \<open>page\<close>), so that an item is the same value before and after a re-sort.
\<close>

datatype node =
  TextNode string
| Element string "string option" "string list" "node list"

text \<open>A selector of the page's scripts: a tag name (\<open>li\<close>) or tag and class (\<open>span.wc\<close>).\<close>

datatype selector = Tag string | TagClass string string

fun matches :: "selector \<Rightarrow> node \<Rightarrow> bool" where
  "matches sel (TextNode s) = False"
| "matches (Tag t) (Element tg i cls ks) = (tg = t)"
| "matches (TagClass t c) (Element tg i cls ks) = (tg = t \<and> c \<in> set cls)"

text \<open>The descendants of a node in document order, the node itself left out.\<close>

fun descendants :: "node \<Rightarrow> node list" where
  "descendants (TextNode s) = []"
| "descendants (Element tg i cls ks) = concat (map (\<lambda>k. k # descendants k) ks)"

fun textContent :: "node \<Rightarrow> string" where
  "textContent (TextNode s) = s"
| "textContent (Element tg i cls ks) = concat (map textContent ks)"

text \<open>\<open>$(selector, context)\<close>: the descendants of the context that match.\<close>

definition jq_find :: "selector \<Rightarrow> node \<Rightarrow> node list" where
  "jq_find sel ctx = filter (matches sel) (descendants ctx)"

text \<open>\<open>.attr('id')\<close>: the attribute of the first selected element, \<open>undefined\<close> otherwise.\<close>

fun jq_attr_id :: "node list \<Rightarrow> string option" where
  "jq_attr_id [] = None"
| "jq_attr_id (TextNode s # ns) = None"
| "jq_attr_id (Element tg i cls ks # ns) = i"

text \<open>\<open>.text()\<close>: the text of every selected element, concatenated.\<close>

definition jq_text :: "node list \<Rightarrow> string" where
  "jq_text ns = concat (map textContent ns)"

subsection \<open>The comparator and the sort\<close>

text \<open>
  The function handed to \<open>.sort\<close> in \<open>sortUsingNestedText\<close>: \<open>-1\<close> when the key of \<open>a\<close> is
  greater, \<open>1\<close> when it is smaller, \<open>0\<close> otherwise.
\<close>

definition compareFn :: "selector \<Rightarrow> bool \<Rightarrow> node \<Rightarrow> node \<Rightarrow> int" where
  "compareFn keySelector isdate a b =
     (if isdate then
        (let vA = jq_attr_id (jq_find keySelector a);
             vB = jq_attr_id (jq_find keySelector b)
         in if js_lt_str vB vA then - 1 else if js_lt_str vA vB then 1 else 0)
      else
        (let vA = parseInt (jq_text (jq_find keySelector a));
             vB = parseInt (jq_text (jq_find keySelector b))
         in if js_lt_num vB vA then - 1 else if js_lt_num vA vB then 1 else 0))"

text \<open>
  \<open>Array.prototype.sort\<close> with a comparator, which jQuery's \<open>.sort\<close> is. The language
  (ECMAScript 2019 and later) asks for a stable sort when the comparator is consistent
  and leaves the order to the engine otherwise, so the engine's own steps are written
  out: those of V8, the engine of Node and Chrome, on an array of fewer than 64
  elements (the timeline has 53). It finds the run the array starts with, reverses that
  run when it is strictly descending, and puts each later element into the sorted front
  part at the place a binary search finds. On 64 elements and more V8 sorts stretches
  of the array this way and merges them; for a consistent comparator the result is the
  same list, the only sorted stable permutation (\<open>array_sort_determined\<close> below).

  \<open>run_extend\<close> is the loop of \<open>CountAndMakeRun\<close>: the elements that continue the run
  after \<open>previousElement\<close>, and the rest of the array.
\<close>

fun run_extend :: "('a \<Rightarrow> 'a \<Rightarrow> int) \<Rightarrow> bool \<Rightarrow> 'a \<Rightarrow> 'a list \<Rightarrow> 'a list \<times> 'a list" where
  "run_extend cmp isDescending previousElement [] = ([], [])"
| "run_extend cmp isDescending previousElement (currentElement # xs) =
     (if (if isDescending then 0 \<le> cmp currentElement previousElement
          else cmp currentElement previousElement < 0)
      then ([], currentElement # xs)
      else (case run_extend cmp isDescending currentElement xs of
              (run, rest) \<Rightarrow> (currentElement # run, rest)))"

fun countAndMakeRun :: "('a \<Rightarrow> 'a \<Rightarrow> int) \<Rightarrow> 'a list \<Rightarrow> 'a list \<times> 'a list" where
  "countAndMakeRun cmp (elementHigh # elementLow # xs) =
     (case run_extend cmp (cmp elementLow elementHigh < 0) elementLow xs of
        (run, rest) \<Rightarrow>
          (if cmp elementLow elementHigh < 0 then rev (elementHigh # elementLow # run)
           else elementHigh # elementLow # run, rest))"
| "countAndMakeRun cmp xs = (xs, [])"

text \<open>
  One round of \<open>BinaryInsertionSort\<close>: the pivot is compared with the middle element of
  the part still in question, and goes into the left part when the comparator is
  negative, into the right part otherwise.
\<close>

function binary_insert :: "('a \<Rightarrow> 'a \<Rightarrow> int) \<Rightarrow> 'a \<Rightarrow> 'a list \<Rightarrow> 'a list" where
  "binary_insert cmp pivot xs =
     (if xs = [] then [pivot]
      else if cmp pivot (xs ! (length xs div 2)) < 0
      then binary_insert cmp pivot (take (length xs div 2) xs) @ drop (length xs div 2) xs
      else take (Suc (length xs div 2)) xs
             @ binary_insert cmp pivot (drop (Suc (length xs div 2)) xs))"
  by pat_completeness auto
termination
  by (relation "measure (\<lambda>(cmp, pivot, xs). length xs)") auto

definition array_sort :: "('a \<Rightarrow> 'a \<Rightarrow> int) \<Rightarrow> 'a list \<Rightarrow> 'a list" where
  "array_sort cmp xs =
     (case countAndMakeRun cmp xs of
        (run, rest) \<Rightarrow> foldl (\<lambda>sorted pivot. binary_insert cmp pivot sorted) run rest)"

subsection \<open>The page and the re-sort\<close>

datatype level = Log | Warn | Error

text \<open>
  What the scripts of the page read and write: the child nodes of the element with id
  \<open>timeline\<close> (\<open>None\<close> when the document has no such element), the inline styles written
  through \<open>.css\<close> (one entry per selector and property), and the console.
\<close>

record page =
  timeline :: "node list option"
  styles :: "string \<times> string \<rightharpoonup> string"
  console :: "(level \<times> string) list"

text \<open>\<open>parent.children(selector)\<close>, for the selection \<open>$('#timeline')\<close>.\<close>

fun jq_children :: "node list option \<Rightarrow> selector \<Rightarrow> node list" where
  "jq_children None sel = []"
| "jq_children (Some kids) sel = filter (matches sel) kids"

text \<open>
  \<open>parent.append(items)\<close>: each item is moved to the end of the parent, in the order of
  \<open>items\<close>; the other child nodes keep their places in front. Nothing happens on an
  empty selection.
\<close>

fun jq_append :: "node list option \<Rightarrow> node list \<Rightarrow> node list option" where
  "jq_append None items = None"
| "jq_append (Some kids) items = Some (filter (\<lambda>k. k \<notin> set items) kids @ items)"

definition sortUsingNestedText :: "selector \<Rightarrow> selector \<Rightarrow> bool \<Rightarrow> page \<Rightarrow> page" where
  "sortUsingNestedText childSelector keySelector isdate pg =
     (let items = array_sort (compareFn keySelector isdate)
                    (jq_children (timeline pg) childSelector)
      in pg\<lparr>console := console pg @ [(Log, ''hi[object Object]'')],
            timeline := jq_append (timeline pg) items\<rparr>)"

text \<open>\<open>$(sel).css(prop, value)\<close> and \<open>$(sel).removeAttr('style')\<close> on the style entries.\<close>

definition css :: "string \<Rightarrow> string \<Rightarrow> string \<Rightarrow> page \<Rightarrow> page" where
  "css sel prop v pg = pg\<lparr>styles := (styles pg)((sel, prop) \<mapsto> v)\<rparr>"

definition removeAttr_style :: "string \<Rightarrow> page \<Rightarrow> page" where
  "removeAttr_style sel pg =
     pg\<lparr>styles := (\<lambda>(s, prop). if s = sel then None else styles pg (s, prop))\<rparr>"

definition sortwc :: "page \<Rightarrow> page" where
  "sortwc pg =
     (removeAttr_style ''a''
       (css ''.content'' ''color'' ''#000''
         (css ''.content'' ''background-color'' ''#fff''
           (css ''.color'' ''visibility'' ''hidden''
             (css ''.wc'' ''visibility'' ''visible''
               (css ''.date'' ''visibility'' ''hidden''
                 (sortUsingNestedText (Tag ''li'') (TagClass ''span'' ''wc'') False pg)))))))"

definition sortdate :: "page \<Rightarrow> page" where
  "sortdate pg =
     (removeAttr_style ''a''
       (css ''.content'' ''color'' ''#000''
         (css ''.content'' ''background-color'' ''#fff''
           (css ''.color'' ''visibility'' ''hidden''
             (css ''.date'' ''visibility'' ''visible''
               (css ''.wc'' ''visibility'' ''hidden''
                 (sortUsingNestedText (Tag ''li'') (TagClass ''span'' ''date'') True pg)))))))"

text \<open>The items of the timeline: its \<open>li\<close> children, in document order.\<close>

definition items_of :: "page \<Rightarrow> node list" where
  "items_of pg = jq_children (timeline pg) (Tag ''li'')"

subsection \<open>Keys, order and sample markup\<close>

text \<open>The two keys the comparator extracts from an item, by name.\<close>

definition attr_key :: "selector \<Rightarrow> node \<Rightarrow> string option" where
  "attr_key keySelector a = jq_attr_id (jq_find keySelector a)"

definition num_key :: "selector \<Rightarrow> node \<Rightarrow> int option" where
  "num_key keySelector a = parseInt (jq_text (jq_find keySelector a))"

text \<open>
  An item carries the key of a sort mode when the extraction gives a string (date mode)
  or a number (word-count mode). The work items of the page all do: each has a
  \<open>span.date\<close> with an id and a \<open>span.wc\<close> holding digits.
\<close>

definition has_key :: "selector \<Rightarrow> bool \<Rightarrow> node \<Rightarrow> bool" where
  "has_key keySelector isdate a =
     (if isdate then attr_key keySelector a \<noteq> None else num_key keySelector a \<noteq> None)"

definition key_lt :: "selector \<Rightarrow> bool \<Rightarrow> node \<Rightarrow> node \<Rightarrow> bool" where
  "key_lt keySelector isdate a b =
     (if isdate then js_lt_str (attr_key keySelector a) (attr_key keySelector b)
      else js_lt_num (num_key keySelector a) (num_key keySelector b))"

definition same_key :: "selector \<Rightarrow> bool \<Rightarrow> node \<Rightarrow> node \<Rightarrow> bool" where
  "same_key keySelector isdate a b =
     (if isdate then attr_key keySelector a = attr_key keySelector b
      else num_key keySelector a = num_key keySelector b)"

text \<open>A sequence is sorted by a key, descending, when no item's key is below a later one's.\<close>

definition sorted_desc :: "selector \<Rightarrow> bool \<Rightarrow> node list \<Rightarrow> bool" where
  "sorted_desc keySelector isdate xs = sorted_wrt (\<lambda>a b. \<not> key_lt keySelector isdate a b) xs"

text \<open>
  One \<open>li class='work'\<close> of the page, with its date id, date label and word count; the
  line breaks between the child elements are text nodes.
\<close>

definition work :: "string \<Rightarrow> string \<Rightarrow> string \<Rightarrow> node" where
  "work d label wc =
     Element ''li'' None [''work'']
       [TextNode [CHR 0x0A],
        Element ''div'' None [''icon''] [],
        TextNode [CHR 0x0A],
        Element ''span'' (Some d) [''date''] [TextNode label],
        Element ''span'' None [''wc''] [TextNode wc],
        Element ''span'' None [''color''] [],
        TextNode [CHR 0x0A],
        Element ''span'' None [''circle''] [],
        TextNode [CHR 0x0A],
        Element ''div'' None [''content'']
          [Element ''p'' None [] [TextNode ''poem''],
           Element ''span'' None [''title''] [Element ''a'' None [] [TextNode ''anatomicon'']]],
        TextNode [CHR 0x0A]]"

text \<open>A page whose \<open>ul id='timeline'\<close> has the given child nodes, and a page without it.\<close>

definition page_of :: "node list \<Rightarrow> page" where
  "page_of kids = \<lparr>timeline = Some kids, styles = Map.empty, console = []\<rparr>"

definition empty_page :: page where
  "empty_page = \<lparr>timeline = None, styles = Map.empty, console = []\<rparr>"

text \<open>
  A timeline of four items, the third of which has a word count that is not a number.
\<close>

definition unkeyed_page :: page where
  "unkeyed_page =
     page_of [work ''2020-08-06'' ''August 2020'' ''90'', work ''2020-03-18'' ''March 2020'' ''170'',
              work ''2019-03-20'' ''March 2019'' ''n/a'', work ''2019-01-04'' ''January 2019'' ''200'']"

section \<open>The verification scripts\<close>

subsection \<open>Flags, console, files and strings\<close>

text \<open>
  Each script keeps two module-level flags and writes to the console. A run is the
  value of the flags and what was written so far: the level of each call
  (\<open>console.log\<close>, \<open>console.warn\<close>, \<open>console.error\<close>) and the fixed words of the message,
  without the leading symbol and without counts and paths.
\<close>

record run =
  hasErrors :: bool
  hasWarnings :: bool
  out :: "(level \<times> string) list"

definition start :: run where
  "start = \<lparr>hasErrors = False, hasWarnings = False, out = []\<rparr>"

definition console_log :: "string \<Rightarrow> run \<Rightarrow> run" where
  "console_log m r = r\<lparr>out := out r @ [(Log, m)]\<rparr>"

definition console_warn :: "string \<Rightarrow> run \<Rightarrow> run" where
  "console_warn m r = r\<lparr>out := out r @ [(Warn, m)]\<rparr>"

definition console_error :: "string \<Rightarrow> run \<Rightarrow> run" where
  "console_error m r = r\<lparr>out := out r @ [(Error, m)]\<rparr>"

definition set_hasErrors :: "run \<Rightarrow> run" where
  "set_hasErrors r = r\<lparr>hasErrors := True\<rparr>"

definition set_hasWarnings :: "run \<Rightarrow> run" where
  "set_hasWarnings r = r\<lparr>hasWarnings := True\<rparr>"

text \<open>
  What a script gets from a file it parses: the file is not there
  (\<open>fs.existsSync\<close> is false), the parser throws, or the parsed document, given by the
  answers to the queries the script makes on it.
\<close>

datatype 'd file_read = Missing | Throws | Doc 'd

text \<open>
  The answer to a \<open>querySelector\<close> whose selector the script builds from an attribute
  value: an element, \<open>null\<close>, or an exception, since \<open>label[for="..."]\<close> is no selector
  when the value holds a double quote.
\<close>

datatype lookup = Found | NotFound | SelectorThrows

text \<open>A string or \<open>null\<close> used as a condition: \<open>null\<close> and the empty string are false.\<close>

fun truthy :: "string option \<Rightarrow> bool" where
  "truthy None = False"
| "truthy (Some s) = (s \<noteq> [])"

definition js_trim :: "string \<Rightarrow> string" where
  "js_trim s = rev (dropWhile is_space (rev (dropWhile is_space s)))"

definition lower :: "char \<Rightarrow> char" where
  "lower c = (let n = (of_char c :: nat) in if 65 \<le> n \<and> n \<le> 90 then char_of (n + 32) else c)"

definition toLowerCase :: "string \<Rightarrow> string" where
  "toLowerCase s = map lower s"

primrec starts_with :: "string \<Rightarrow> string \<Rightarrow> bool" where
  "starts_with s [] = True"
| "starts_with s (p # ps) = (case s of [] \<Rightarrow> False | c # cs \<Rightarrow> c = p \<and> starts_with cs ps)"

text \<open>\<open>s.includes(sub)\<close>: \<open>sub\<close> occurs somewhere in \<open>s\<close>.\<close>

primrec str_includes :: "string \<Rightarrow> string \<Rightarrow> bool" where
  "str_includes [] sub = (sub = [])"
| "str_includes (c # cs) sub = (starts_with (c # cs) sub \<or> str_includes cs sub)"

text \<open>
  \<open>content.match(/<img[^>]*>/gi) || []\<close>: every stretch from \<open><img\<close> (letters in
  either case) to the next \<open>>\<close>, left to right and without overlap. The first
  argument of \<open>img_tags\<close> is the tag being read, if any.
\<close>

fun starts_img :: "string \<Rightarrow> bool" where
  "starts_img (a # b # c # d # cs) =
     (a = CHR ''<'' \<and> lower b = CHR ''i'' \<and> lower c = CHR ''m'' \<and> lower d = CHR ''g'')"
| "starts_img cs = False"

fun img_tags :: "string option \<Rightarrow> string \<Rightarrow> string list" where
  "img_tags st [] = []"
| "img_tags (Some acc) (c # cs) =
     (if c = CHR ''>'' then (acc @ [c]) # img_tags None cs else img_tags (Some (acc @ [c])) cs)"
| "img_tags None (c # cs) =
     (if starts_img (c # cs) then img_tags (Some [c]) cs else img_tags None cs)"

definition match_img :: "string \<Rightarrow> string list" where
  "match_img content = img_tags None content"

subsection \<open>The SEO script\<close>

definition testFileExists :: "bool \<Rightarrow> string \<Rightarrow> run \<Rightarrow> bool \<times> run" where
  "testFileExists existsSync description r0 =
     (let r = console_log (''Testing: '' @ description) r0
      in if existsSync then (True, console_log (description @ '' exists'') r)
         else (False, set_hasErrors (console_error (description @ '' not found'') r)))"

text \<open>
  The document of \<open>testHTMLForSEO\<close>, as its queries see it. A \<open>bool\<close> says whether
  \<open>querySelector\<close> found an element. \<open>seo_metaDesc\<close> is the \<open>content\<close> attribute of the
  description element (outer \<open>None\<close>: no element), \<open>seo_title\<close> the text of the title
  element, \<open>seo_structuredData\<close> whether \<open>JSON.parse\<close> accepts the text of the JSON-LD
  script (\<open>None\<close>: no such script), \<open>seo_images\<close> the \<open>src\<close> and \<open>alt\<close> attributes of each
  image, \<open>seo_htmlLang\<close> the \<open>lang\<close> attribute of the \<open>html\<close> element, which the parser
  always builds.
\<close>

record seo_doc =
  seo_metaDesc :: "string option option"
  seo_viewport :: bool
  seo_ogTitle :: bool
  seo_ogDesc :: bool
  seo_ogUrl :: bool
  seo_ogImage :: bool
  seo_twitterCard :: bool
  seo_twitterTitle :: bool
  seo_twitterDesc :: bool
  seo_canonical :: bool
  seo_themeColor :: bool
  seo_title :: "string option"
  seo_manifest :: bool
  seo_favicon :: bool
  seo_appleTouchIcon :: bool
  seo_structuredData :: "bool option"
  seo_images :: "(string option \<times> string option) list"
  seo_htmlLang :: "string option"

definition seo_test1 :: "seo_doc \<Rightarrow> run \<Rightarrow> run" where
  "seo_test1 d r0 =
     (let r = console_log ''Checking meta tags...'' r0
      in if (case seo_metaDesc d of None \<Rightarrow> False | Some content \<Rightarrow> truthy content)
         then console_log ''Meta description found'' r
         else set_hasWarnings (console_warn ''Meta description missing or empty'' r))"

definition seo_test2 :: "seo_doc \<Rightarrow> run \<Rightarrow> run" where
  "seo_test2 d r =
     (if seo_viewport d then console_log ''Viewport meta tag found'' r
      else set_hasErrors (console_error ''Viewport meta tag missing'' r))"

definition seo_test3 :: "seo_doc \<Rightarrow> run \<Rightarrow> run" where
  "seo_test3 d r0 =
     (let r = (if seo_ogTitle d \<and> seo_ogDesc d \<and> seo_ogUrl d
               then console_log ''Open Graph tags found (title, description, url)'' r0
               else set_hasErrors (console_error ''Missing some Open Graph tags'' r0))
      in if seo_ogImage d then console_log ''Open Graph image found'' r
         else set_hasWarnings (console_warn ''Open Graph image missing'' r))"

definition seo_test4 :: "seo_doc \<Rightarrow> run \<Rightarrow> run" where
  "seo_test4 d r =
     (if seo_twitterCard d \<and> seo_twitterTitle d \<and> seo_twitterDesc d
      then console_log ''Twitter Card tags found'' r
      else set_hasErrors (console_error ''Missing some Twitter Card tags'' r))"

definition seo_test5 :: "seo_doc \<Rightarrow> run \<Rightarrow> run" where
  "seo_test5 d r =
     (if seo_canonical d then console_log ''Canonical URL found'' r
      else set_hasErrors (console_error ''Canonical URL missing'' r))"

definition seo_test6 :: "seo_doc \<Rightarrow> run \<Rightarrow> run" where
  "seo_test6 d r =
     (if seo_themeColor d then console_log ''Theme color meta tag found'' r
      else set_hasWarnings (console_warn ''Theme color meta tag missing'' r))"

definition seo_test7 :: "seo_doc \<Rightarrow> run \<Rightarrow> run" where
  "seo_test7 d r =
     (if (case seo_title d of None \<Rightarrow> False | Some t \<Rightarrow> js_trim t \<noteq> [])
      then console_log ''Title tag found and not empty'' r
      else set_hasErrors (console_error ''Title tag missing or empty'' r))"

definition seo_test8 :: "seo_doc \<Rightarrow> run \<Rightarrow> run" where
  "seo_test8 d r =
     (if seo_manifest d then console_log ''Web manifest link found'' r
      else set_hasWarnings (console_warn ''Web manifest link missing'' r))"

definition seo_test9 :: "seo_doc \<Rightarrow> run \<Rightarrow> run" where
  "seo_test9 d r =
     (if seo_favicon d then console_log ''Favicon found'' r
      else set_hasWarnings (console_warn ''Favicon missing'' r))"

definition seo_test10 :: "seo_doc \<Rightarrow> run \<Rightarrow> run" where
  "seo_test10 d r =
     (if seo_appleTouchIcon d then console_log ''Apple touch icon found'' r
      else set_hasWarnings (console_warn ''Apple touch icon missing'' r))"

definition seo_test11 :: "seo_doc \<Rightarrow> run \<Rightarrow> run" where
  "seo_test11 d r0 =
     (case seo_structuredData d of
        Some parses \<Rightarrow>
          (let r = console_log ''Structured data (JSON-LD) found'' r0
           in if parses then console_log ''Structured data is valid JSON'' r
              else set_hasErrors (console_error ''Structured data has invalid JSON syntax'' r))
      | None \<Rightarrow> set_hasWarnings (console_warn ''Structured data (JSON-LD) missing'' r0))"

text \<open>\<open>img.getAttribute('src') || 'unknown'\<close>\<close>

fun src_or_unknown :: "string option \<Rightarrow> string" where
  "src_or_unknown None = ''unknown''"
| "src_or_unknown (Some s) = (if s = [] then ''unknown'' else s)"

text \<open>The body of the \<open>forEach\<close> of test 12, on the run and \<open>missingAltCount\<close>.\<close>

definition seo_image :: "string option \<times> string option \<Rightarrow> run \<times> nat \<Rightarrow> run \<times> nat" where
  "seo_image img s =
     (case img of (src, alt) \<Rightarrow> case s of (r, missingAltCount) \<Rightarrow>
        if \<not> truthy alt \<or> (case alt of None \<Rightarrow> True | Some a \<Rightarrow> js_trim a = [])
        then (console_error (''Image missing alt text: '' @ src_or_unknown src) r,
              missingAltCount + 1)
        else (r, missingAltCount))"

definition seo_test12 :: "seo_doc \<Rightarrow> run \<Rightarrow> run" where
  "seo_test12 d r0 =
     (case fold seo_image (seo_images d) (console_log ''Checking images for alt text...'' r0, 0)
      of (r, missingAltCount) \<Rightarrow>
        if missingAltCount = 0 \<and> length (seo_images d) > 0
        then console_log ''All images have alt text'' r
        else if length (seo_images d) = 0 then console_log ''No images found in this file'' r
        else set_hasErrors (console_error ''images missing alt text'' r))"

definition seo_test13 :: "seo_doc \<Rightarrow> bool \<Rightarrow> run \<Rightarrow> run" where
  "seo_test13 d isCompleteDoc r0 =
     (if isCompleteDoc then
        (let r = console_log ''Checking HTML lang attribute...'' r0
         in if truthy (seo_htmlLang d) then console_log ''HTML lang attribute found'' r
            else set_hasErrors (console_error ''HTML lang attribute missing'' r))
      else r0)"

definition testHTMLForSEO :: "seo_doc file_read \<Rightarrow> string \<Rightarrow> bool \<Rightarrow> run \<Rightarrow> run" where
  "testHTMLForSEO f pageName isCompleteDoc r0 =
     (let r = console_log (''=== Testing '' @ pageName @ '' for SEO compliance ==='') r0
      in case f of
           Missing \<Rightarrow> set_hasErrors (console_error ''File not found'' r)
         | Throws \<Rightarrow> set_hasErrors (console_error ''Error parsing'' r)
         | Doc d \<Rightarrow>
             console_log (pageName @ '' SEO tests completed'')
               (seo_test13 d isCompleteDoc
                 (fold (\<lambda>t. t d)
                    [seo_test1, seo_test2, seo_test3, seo_test4, seo_test5, seo_test6,
                     seo_test7, seo_test8, seo_test9, seo_test10, seo_test11, seo_test12] r)))"

text \<open>
  The manifest as \<open>testManifest\<close> reads it: whether each required field and
  \<open>theme_color\<close> is a true value, and the length of \<open>icons\<close> when it is one.
\<close>

record manifest =
  mf_name :: bool
  mf_short_name :: bool
  mf_start_url :: bool
  mf_display :: bool
  mf_icons :: "nat option"
  mf_theme_color :: bool

definition manifest_field :: "string \<times> bool \<Rightarrow> run \<times> bool \<Rightarrow> run \<times> bool" where
  "manifest_field fld s =
     (case fld of (field, present) \<Rightarrow> case s of (r, allPresent) \<Rightarrow>
        if present then (console_log (''Manifest has '' @ field) r, allPresent)
        else (set_hasErrors (console_error (''Manifest missing '' @ field) r), False))"

definition testManifest :: "manifest file_read \<Rightarrow> run \<Rightarrow> run" where
  "testManifest f r0 =
     (let r1 = console_log ''=== Testing manifest.json ==='' r0
      in case f of
           Missing \<Rightarrow> set_hasErrors (console_error ''manifest.json not found'' r1)
         | Throws \<Rightarrow> set_hasErrors (console_error ''Error parsing manifest.json'' r1)
         | Doc m \<Rightarrow>
             (case fold manifest_field
                     [(''name'', mf_name m), (''short_name'', mf_short_name m),
                      (''start_url'', mf_start_url m), (''display'', mf_display m)] (r1, True)
              of (r2, allPresent) \<Rightarrow>
                let r3 = (if (case mf_icons m of None \<Rightarrow> False | Some n \<Rightarrow> n > 0)
                          then console_log ''Manifest has icons'' r2
                          else set_hasWarnings (console_warn ''Manifest missing icons'' r2));
                    r4 = (if mf_theme_color m then console_log ''Manifest has theme_color'' r3
                          else set_hasWarnings (console_warn ''Manifest missing theme_color'' r3))
                in if allPresent then console_log ''manifest.json is valid'' r4 else r4))"

definition testRobotsTxt :: "string option \<Rightarrow> run \<Rightarrow> run" where
  "testRobotsTxt f r0 =
     (let r1 = console_log ''=== Testing robots.txt ==='' r0
      in case f of
           None \<Rightarrow> set_hasErrors (console_error ''robots.txt not found'' r1)
         | Some content \<Rightarrow>
             (let r2 = (if str_includes content ''Sitemap:''
                        then console_log ''robots.txt has Sitemap directive'' r1
                        else set_hasErrors
                               (console_error ''robots.txt missing Sitemap directive'' r1));
                  r3 = (if str_includes content ''User-agent:''
                        then console_log ''robots.txt has User-agent directive'' r2
                        else console_log ''robots.txt has no User-agent directive'' r2)
              in console_log ''robots.txt tests completed'' r3))"

text \<open>
  The loop over \<open>pagesToTest\<close> at the top level of the script, for one page: its name
  and the content of its file, if the file exists. \<open>seo_page_tag\<close> is the body of the
  inner \<open>forEach\<close> over the image tags, on the run and \<open>missingAlt\<close>.
\<close>

definition seo_page_tag :: "string \<Rightarrow> string \<Rightarrow> run \<times> nat \<Rightarrow> run \<times> nat" where
  "seo_page_tag name tag s =
     (case s of (r, missingAlt) \<Rightarrow>
        if \<not> str_includes tag ''alt=''
        then (console_error (name @ '': Image tag missing alt attribute'') r, missingAlt + 1)
        else (r, missingAlt))"

definition seo_test_page :: "string \<Rightarrow> string option \<Rightarrow> run \<Rightarrow> run" where
  "seo_test_page name page r0 =
     (case page of
        None \<Rightarrow> r0
      | Some content \<Rightarrow>
          (case fold (seo_page_tag name) (match_img content) (r0, 0) of (r, missingAlt) \<Rightarrow>
             if length (match_img content) > 0 \<and> missingAlt = 0
             then console_log (name @ '': All images have alt attributes'') r
             else if length (match_img content) = 0
             then console_log (name @ '': No images found'') r
             else r))"

text \<open>The final summary: the last message and the code handed to \<open>process.exit\<close>.\<close>

definition seo_summary :: "run \<Rightarrow> run \<times> nat" where
  "seo_summary r0 =
     (let r = console_log ''=== Test Summary ==='' r0
      in if hasErrors r
         then (console_error
                 ''Some SEO compliance tests FAILED. Please fix the errors above.'' r, 1)
         else if hasWarnings r
         then (console_warn
                 ''All critical tests passed, but there are some warnings to address.'' r, 0)
         else (console_log ''All SEO and web compliance tests PASSED!'' r, 0))"

text \<open>The files the SEO script reads under the project root.\<close>

record seo_site =
  robots_txt :: "string option"
  manifest_json :: "manifest file_read"
  head_html :: "seo_doc file_read"
  books_html :: "string option"
  about_md :: "string option"

definition seo_script :: "seo_site \<Rightarrow> run \<times> nat" where
  "seo_script site =
     (let r1 = console_log ''Starting SEO and web compliance tests...'' start;
          r2 = console_log ''=== Testing for required files ==='' r1;
          r3 = snd (testFileExists (robots_txt site \<noteq> None) ''robots.txt'' r2);
          r4 = snd (testFileExists (manifest_json site \<noteq> Missing) ''manifest.json'' r3);
          r5 = console_log [] r4;
          r6 = testHTMLForSEO (head_html site) ''head.html template'' False r5;
          r7 = console_log ''=== Testing individual pages ==='' r6;
          r8 = seo_test_page ''Books page'' (books_html site) r7;
          r9 = seo_test_page ''About page'' (about_md site) r8;
          r10 = testManifest (manifest_json site) r9;
          r11 = testRobotsTxt (robots_txt site) r10
      in seo_summary r11)"

subsection \<open>The accessibility script\<close>

text \<open>
  The document of \<open>testHTMLForAccessibility\<close>, as its queries see it: the \<open>lang\<close>
  attribute of the \<open>html\<close> element, the levels of the headings in document order, the
  \<open>src\<close> and \<open>alt\<close> attributes of the images, the form controls, the links, the text and
  \<open>aria-label\<close> of the buttons, and whether each landmark was found.
\<close>

record form_control =
  fc_id :: "string option"
  fc_ariaLabel :: "string option"
  fc_ariaLabelledBy :: "string option"
  fc_type :: "string option"
  fc_labelFor :: lookup

record anchor =
  an_text :: string
  an_ariaLabel :: "string option"

record a11y_doc =
  a_htmlLang :: "string option"
  a_headings :: "nat list"
  a_images :: "(string option \<times> string option) list"
  a_inputs :: "form_control list"
  a_links :: "anchor list"
  a_buttons :: "(string \<times> string option) list"
  a_nav :: bool
  a_main :: bool
  a_header :: bool
  a_footer :: bool

definition a11y_test1 :: "a11y_doc \<Rightarrow> run \<Rightarrow> run" where
  "a11y_test1 d r0 =
     (let r = console_log ''Checking language attributes...'' r0
      in if truthy (a_htmlLang d) then console_log ''HTML has lang attribute'' r
         else set_hasErrors (console_error ''HTML missing lang attribute'' r))"

text \<open>
  The body of the \<open>forEach\<close> over the headings, on the run, the index, \<open>previousLevel\<close>
  and \<open>headingIssues\<close>.
\<close>

definition a11y_heading :: "nat \<Rightarrow> run \<times> nat \<times> nat \<times> nat \<Rightarrow> run \<times> nat \<times> nat \<times> nat" where
  "a11y_heading lvl s =
     (case s of (r0, idx, previousLevel, headingIssues) \<Rightarrow>
        let r1 = (if idx = 0 \<and> lvl \<noteq> 1
                  then set_hasWarnings (console_warn ''First heading should be <h1>'' r0)
                  else r0)
        in if previousLevel > 0 \<and> lvl > previousLevel + 1
           then (set_hasWarnings (console_warn ''Heading level skipped'' r1),
                 idx + 1, lvl, headingIssues + 1)
           else (r1, idx + 1, lvl, headingIssues))"

definition a11y_test2 :: "a11y_doc \<Rightarrow> run \<Rightarrow> run" where
  "a11y_test2 d r0 =
     (case fold a11y_heading (a_headings d)
             (console_log ''Checking heading hierarchy...'' r0, 0, 0, 0)
      of (r, idx, previousLevel, headingIssues) \<Rightarrow>
        if headingIssues = 0 \<and> length (a_headings d) > 0
        then console_log ''Heading hierarchy is correct'' r
        else if length (a_headings d) = 0 then console_log ''No headings found'' r
        else r)"

text \<open>
  The body of the \<open>forEach\<close> of test 3, on the run, \<open>missingAltCount\<close> and
  \<open>emptyAltCount\<close>. The first condition is \<open>!alt\<close>.
\<close>

definition a11y_image ::
  "string option \<times> string option \<Rightarrow> run \<times> nat \<times> nat \<Rightarrow> run \<times> nat \<times> nat" where
  "a11y_image img s =
     (case img of (src, alt) \<Rightarrow> case s of (r, missingAltCount, emptyAltCount) \<Rightarrow>
        if \<not> truthy alt
        then (console_error (''Image missing alt attribute: '' @ src_or_unknown src) r,
              missingAltCount + 1, emptyAltCount)
        else if (case alt of None \<Rightarrow> False | Some a \<Rightarrow> js_trim a = [])
        then (r, missingAltCount, emptyAltCount + 1)
        else (r, missingAltCount, emptyAltCount))"

definition a11y_test3 :: "a11y_doc \<Rightarrow> run \<Rightarrow> run" where
  "a11y_test3 d r0 =
     (case fold a11y_image (a_images d)
             (console_log ''Checking images for alt text...'' r0, 0, 0)
      of (r, missingAltCount, emptyAltCount) \<Rightarrow>
        if missingAltCount = 0 \<and> length (a_images d) > 0
        then (let r1 = console_log ''All images have alt attributes'' r
              in if emptyAltCount > 0
                 then console_log ''images have empty alt (decorative)'' r1 else r1)
        else if length (a_images d) = 0 then console_log ''No images found'' r
        else set_hasErrors (console_error ''images missing alt attributes'' r))"

text \<open>
  The body of the \<open>forEach\<close> over the form controls, on the run and \<open>unlabeledInputs\<close>.
  \<open>Inl\<close> is the run at the moment the query for the label threw; the loop is left then.
\<close>

definition a11y_input :: "form_control \<Rightarrow> run + run \<times> nat \<Rightarrow> run + run \<times> nat" where
  "a11y_input c s =
     (case s of
        Inl r \<Rightarrow> Inl r
      | Inr (r, unlabeledInputs) \<Rightarrow>
          if fc_type c = Some ''hidden'' \<or> fc_type c = Some ''submit'' \<or>
             fc_type c = Some ''button''
          then Inr (r, unlabeledInputs)
          else if truthy (fc_id c) \<and> fc_labelFor c = SelectorThrows then Inl r
          else
            (let hasLabel = (truthy (fc_id c) \<and> fc_labelFor c = Found)
             in if \<not> hasLabel \<and> \<not> truthy (fc_ariaLabel c) \<and> \<not> truthy (fc_ariaLabelledBy c)
                then Inr (console_error ''Input missing label or aria-label'' r,
                          unlabeledInputs + 1)
                else Inr (r, unlabeledInputs)))"

definition a11y_test4 :: "a11y_doc \<Rightarrow> run \<Rightarrow> run + run" where
  "a11y_test4 d r0 =
     (case fold a11y_input (a_inputs d)
             (Inr (console_log ''Checking forms for accessibility...'' r0, 0))
      of Inl r \<Rightarrow> Inl r
       | Inr (r, unlabeledInputs) \<Rightarrow>
           Inr (if unlabeledInputs = 0 \<and> length (a_inputs d) > 0
                then console_log ''All form controls have labels'' r
                else if length (a_inputs d) = 0 then console_log ''No form controls found'' r
                else set_hasErrors (console_error ''form controls missing labels'' r)))"

definition nonDescriptiveTexts :: "string list" where
  "nonDescriptiveTexts = [''click here'', ''here'', ''read more'', ''more'', ''link'']"

definition a11y_link :: "anchor \<Rightarrow> run \<times> nat \<times> nat \<Rightarrow> run \<times> nat \<times> nat" where
  "a11y_link l s =
     (case s of (r, emptyLinks, nonDescriptiveLinks) \<Rightarrow>
        let text = toLowerCase (js_trim (an_text l))
        in if text = [] \<and> \<not> truthy (an_ariaLabel l)
           then (console_warn ''Link has no text content'' r, emptyLinks + 1, nonDescriptiveLinks)
           else if text \<in> set nonDescriptiveTexts \<and> \<not> truthy (an_ariaLabel l)
           then (console_warn ''Link has non-descriptive text'' r,
                 emptyLinks, nonDescriptiveLinks + 1)
           else (r, emptyLinks, nonDescriptiveLinks))"

definition a11y_test5 :: "a11y_doc \<Rightarrow> run \<Rightarrow> run" where
  "a11y_test5 d r0 =
     (case fold a11y_link (a_links d)
             (console_log ''Checking links for descriptive text...'' r0, 0, 0)
      of (r, emptyLinks, nonDescriptiveLinks) \<Rightarrow>
        if emptyLinks = 0 \<and> nonDescriptiveLinks = 0 \<and> length (a_links d) > 0
        then console_log ''All links have descriptive text'' r
        else if length (a_links d) = 0 then console_log ''No links found'' r
        else
          (let r1 = (if emptyLinks > 0
                     then set_hasErrors (console_error ''links have no text'' r) else r)
           in if nonDescriptiveLinks > 0
              then set_hasWarnings (console_warn ''links have non-descriptive text'' r1)
              else r1))"

definition a11y_button :: "string \<times> string option \<Rightarrow> run \<times> nat \<Rightarrow> run \<times> nat" where
  "a11y_button b s =
     (case b of (text, ariaLabel) \<Rightarrow> case s of (r, unlabeledButtons) \<Rightarrow>
        if js_trim text = [] \<and> \<not> truthy ariaLabel
        then (console_error ''Button has no accessible name'' r, unlabeledButtons + 1)
        else (r, unlabeledButtons))"

definition a11y_test6 :: "a11y_doc \<Rightarrow> run \<Rightarrow> run" where
  "a11y_test6 d r0 =
     (case fold a11y_button (a_buttons d)
             (console_log ''Checking buttons for accessible names...'' r0, 0)
      of (r, unlabeledButtons) \<Rightarrow>
        if unlabeledButtons = 0 \<and> length (a_buttons d) > 0
        then console_log ''All buttons have accessible names'' r
        else if length (a_buttons d) = 0 then console_log ''No buttons found'' r
        else set_hasErrors (console_error ''buttons missing accessible names'' r))"

definition landmark :: "bool \<Rightarrow> string \<Rightarrow> run \<Rightarrow> run" where
  "landmark found name r =
     (if found then console_log (name @ '' landmark found'') r
      else set_hasWarnings (console_warn (name @ '' landmark missing'') r))"

definition a11y_test7 :: "a11y_doc \<Rightarrow> run \<Rightarrow> run" where
  "a11y_test7 d r0 =
     (let r1 = console_log ''Checking for ARIA landmarks...'' r0;
          r2 = landmark (a_nav d) ''Navigation'' r1;
          r3 = landmark (a_main d) ''Main'' r2;
          r4 = landmark (a_header d) ''Header/banner'' r3
      in landmark (a_footer d) ''Footer/contentinfo'' r4)"

definition testHTMLForAccessibility :: "a11y_doc file_read \<Rightarrow> string \<Rightarrow> run \<Rightarrow> run" where
  "testHTMLForAccessibility f pageName r0 =
     (let r = console_log (''=== Testing '' @ pageName @ '' for accessibility ==='') r0
      in case f of
           Missing \<Rightarrow> set_hasErrors (console_error ''File not found'' r)
         | Throws \<Rightarrow> set_hasErrors (console_error ''Error parsing'' r)
         | Doc d \<Rightarrow>
             (case a11y_test4 d (fold (\<lambda>t. t d) [a11y_test1, a11y_test2, a11y_test3] r) of
                Inl r4 \<Rightarrow> set_hasErrors (console_error ''Error parsing'' r4)
              | Inr r4 \<Rightarrow>
                  console_log (pageName @ '' accessibility tests completed'')
                    (fold (\<lambda>t. t d) [a11y_test5, a11y_test6, a11y_test7] r4)))"

definition a11y_summary :: "run \<Rightarrow> run \<times> nat" where
  "a11y_summary r0 =
     (let r = console_log ''=== Test Summary ==='' r0
      in if hasErrors r
         then (console_error
                 ''Some accessibility tests FAILED. Please fix the errors above.'' r, 1)
         else if hasWarnings r
         then (console_warn
                 ''All critical accessibility tests passed, but there are some warnings to address.''
                 r, 0)
         else (console_log ''All accessibility tests PASSED!'' r, 0))"

text \<open>The files the accessibility script reads; a sample page is tested when it exists.\<close>

record a11y_site =
  default_layout :: "a11y_doc file_read"
  header_include :: "a11y_doc file_read"
  footer_include :: "a11y_doc file_read"
  books_page :: "a11y_doc file_read"
  about_page :: "a11y_doc file_read"

definition a11y_sample_page :: "a11y_doc file_read \<Rightarrow> string \<Rightarrow> run \<Rightarrow> run" where
  "a11y_sample_page f name r = (if f \<noteq> Missing then testHTMLForAccessibility f name r else r)"

definition a11y_script :: "a11y_site \<Rightarrow> run \<times> nat" where
  "a11y_script site =
     (let r1 = console_log ''Starting accessibility compliance tests...'' start;
          r2 = testHTMLForAccessibility (default_layout site) ''Default layout'' r1;
          r3 = testHTMLForAccessibility (header_include site) ''Header include'' r2;
          r4 = testHTMLForAccessibility (footer_include site) ''Footer include'' r3;
          r5 = a11y_sample_page (books_page site) ''Books page'' r4;
          r6 = a11y_sample_page (about_page site) ''About page'' r5
      in a11y_summary r6)"

subsection \<open>Outcome of the scripts, by cause\<close>

text \<open>
  The conditions under which each part of the SEO script sets the error flag, and the
  ones under which \<open>testHTMLForSEO\<close> sets the warning flag, written out once so that
  the flags after a run can be stated.
\<close>

definition blank_alt :: "string option \<times> string option \<Rightarrow> bool" where
  "blank_alt img = (case snd img of None \<Rightarrow> True | Some a \<Rightarrow> js_trim a = [])"

definition seo_hard_failure :: "seo_doc \<Rightarrow> bool \<Rightarrow> bool" where
  "seo_hard_failure d isCompleteDoc =
     (\<not> seo_viewport d \<or> \<not> (seo_ogTitle d \<and> seo_ogDesc d \<and> seo_ogUrl d) \<or>
      \<not> (seo_twitterCard d \<and> seo_twitterTitle d \<and> seo_twitterDesc d) \<or>
      \<not> seo_canonical d \<or>
      (case seo_title d of None \<Rightarrow> True | Some t \<Rightarrow> js_trim t = []) \<or>
      seo_structuredData d = Some False \<or>
      filter blank_alt (seo_images d) \<noteq> [] \<or>
      (isCompleteDoc \<and> \<not> truthy (seo_htmlLang d)))"

definition seo_soft_failure :: "seo_doc \<Rightarrow> bool" where
  "seo_soft_failure d =
     ((case seo_metaDesc d of None \<Rightarrow> True | Some content \<Rightarrow> \<not> truthy content) \<or>
      \<not> seo_ogImage d \<or> \<not> seo_themeColor d \<or> \<not> seo_manifest d \<or> \<not> seo_favicon d \<or>
      \<not> seo_appleTouchIcon d \<or> seo_structuredData d = None)"

fun seo_file_failure :: "seo_doc file_read \<Rightarrow> bool \<Rightarrow> bool" where
  "seo_file_failure (Doc d) isCompleteDoc = seo_hard_failure d isCompleteDoc"
| "seo_file_failure f isCompleteDoc = True"

fun manifest_failure :: "manifest file_read \<Rightarrow> bool" where
  "manifest_failure (Doc m) = (\<not> (mf_name m \<and> mf_short_name m \<and> mf_start_url m \<and> mf_display m))"
| "manifest_failure f = True"

fun robots_failure :: "string option \<Rightarrow> bool" where
  "robots_failure None = True"
| "robots_failure (Some content) = (\<not> str_includes content ''Sitemap:'')"

definition seo_site_failure :: "seo_site \<Rightarrow> bool" where
  "seo_site_failure site =
     (seo_file_failure (head_html site) False \<or> manifest_failure (manifest_json site) \<or>
      robots_failure (robots_txt site))"

text \<open>
  The seven items whose absence \<open>testHTMLForSEO\<close> reports with \<open>console.warn\<close>, and a
  document with one of them taken out.
\<close>

datatype soft_item =
  MetaDescription | OgImage | ThemeColor | ManifestLink | Favicon | AppleTouchIcon | JsonLd

fun remove_item :: "soft_item \<Rightarrow> seo_doc \<Rightarrow> seo_doc" where
  "remove_item MetaDescription d = d\<lparr>seo_metaDesc := None\<rparr>"
| "remove_item OgImage d = d\<lparr>seo_ogImage := False\<rparr>"
| "remove_item ThemeColor d = d\<lparr>seo_themeColor := False\<rparr>"
| "remove_item ManifestLink d = d\<lparr>seo_manifest := False\<rparr>"
| "remove_item Favicon d = d\<lparr>seo_favicon := False\<rparr>"
| "remove_item AppleTouchIcon d = d\<lparr>seo_appleTouchIcon := False\<rparr>"
| "remove_item JsonLd d = d\<lparr>seo_structuredData := None\<rparr>"

definition all_soft_items :: "soft_item list" where
  "all_soft_items =
     [MetaDescription, OgImage, ThemeColor, ManifestLink, Favicon, AppleTouchIcon, JsonLd]"

subsection \<open>Sample inputs of the scripts\<close>

text \<open>A head template that passes every check, and a site that does.\<close>

definition good_head :: seo_doc where
  "good_head =
     \<lparr>seo_metaDesc = Some (Some ''Author and portfolio site''), seo_viewport = True,
      seo_ogTitle = True, seo_ogDesc = True, seo_ogUrl = True, seo_ogImage = True,
      seo_twitterCard = True, seo_twitterTitle = True, seo_twitterDesc = True,
      seo_canonical = True, seo_themeColor = True, seo_title = Some ''Shorter Works'',
      seo_manifest = True, seo_favicon = True, seo_appleTouchIcon = True,
      seo_structuredData = Some True, seo_images = [], seo_htmlLang = None\<rparr>"

definition good_manifest :: manifest where
  "good_manifest =
     \<lparr>mf_name = True, mf_short_name = True, mf_start_url = True, mf_display = True,
      mf_icons = Some 2, mf_theme_color = True\<rparr>"

definition good_site :: seo_site where
  "good_site =
     \<lparr>robots_txt = Some ''User-agent: * Sitemap: /sitemap.xml'',
      manifest_json = Doc good_manifest, head_html = Doc good_head,
      books_html = Some ''<h1>Books</h1>'', about_md = Some ''About the author''\<rparr>"

text \<open>A layout that passes every accessibility check but for the images it is given.\<close>

definition layout_with :: "(string option \<times> string option) list \<Rightarrow> a11y_doc" where
  "layout_with imgs =
     \<lparr>a_htmlLang = Some ''en'', a_headings = [1, 2], a_images = imgs, a_inputs = [],
      a_links = [\<lparr>an_text = ''Shorter Works'', an_ariaLabel = None\<rparr>], a_buttons = [],
      a_nav = True, a_main = True, a_header = True, a_footer = True\<rparr>"

definition site_with :: "(string option \<times> string option) list \<Rightarrow> a11y_site" where
  "site_with imgs =
     \<lparr>default_layout = Doc (layout_with imgs), header_include = Doc (layout_with []),
      footer_include = Doc (layout_with []), books_page = Missing, about_page = Missing\<rparr>"

section \<open>The shuffle of the prompt generator\<close>

text \<open>
  Modelled from the spec: the function \<open>shuffle\<close> of \<open>_pages/writingprompts.html\<close>, which
  is not among the sources (only the test that looks for a function of that name is).
  The spec asks for a permutation and names the Fisher-Yates shuffle: for \<open>i\<close> from the
  last index down to \<open>1\<close>, the element at \<open>i\<close> is exchanged with the one at a random
  index \<open>j \<le> i\<close>. The random source is a parameter: \<open>rnd i\<close> is the number drawn at step
  \<open>i\<close>, brought into range by \<open>mod (i + 1)\<close>.
\<close>

definition swap :: "nat \<Rightarrow> nat \<Rightarrow> 'a list \<Rightarrow> 'a list" where
  "swap i j xs = xs[i := xs ! j, j := xs ! i]"

fun shuffle_from :: "(nat \<Rightarrow> nat) \<Rightarrow> nat \<Rightarrow> 'a list \<Rightarrow> 'a list" where
  "shuffle_from rnd 0 xs = xs"
| "shuffle_from rnd (Suc i) xs =
     shuffle_from rnd i (swap (Suc i) (rnd (Suc i) mod (Suc (Suc i))) xs)"

definition shuffle :: "(nat \<Rightarrow> nat) \<Rightarrow> 'a list \<Rightarrow> 'a list" where
  "shuffle rnd xs = shuffle_from rnd (length xs - 1) xs"

section \<open>Properties of the re-sort\<close>

subsection \<open>The sort keeps the elements\<close>

declare binary_insert.simps [simp del]

lemma binary_insert_Nil [simp]: "binary_insert cmp p [] = [p]"
  by (simp add: binary_insert.simps)

lemma run_extend_append: "run_extend cmp desc prev xs = (run, rest) \<Longrightarrow> run @ rest = xs"
  by (induction xs arbitrary: prev run) (auto split: if_splits prod.splits)

lemma countAndMakeRun_mset:
  "countAndMakeRun cmp xs = (run, rest) \<Longrightarrow> mset run + mset rest = mset xs"
proof (induction cmp xs rule: countAndMakeRun.induct)
  case (1 cmp elementHigh elementLow xs)
  obtain r t where rt: "run_extend cmp (cmp elementLow elementHigh < 0) elementLow xs = (r, t)"
    by (cases "run_extend cmp (cmp elementLow elementHigh < 0) elementLow xs")
  from run_extend_append [OF rt] have "mset r + mset t = mset xs"
    by (metis mset_append)
  with 1 rt show ?case by (auto split: if_splits)
qed simp_all

lemma mset_take_drop: "mset (take n xs) + mset (drop n xs) = mset xs"
  by (metis append_take_drop_id mset_append)

lemma mset_binary_insert: "mset (binary_insert cmp p xs) = add_mset p (mset xs)"
proof (induction cmp p xs rule: binary_insert.induct)
  case (1 cmp pivot xs)
  show ?case
  proof (cases "xs = []")
    case True
    then show ?thesis by simp
  next
    case False
    show ?thesis
    proof (cases "cmp pivot (xs ! (length xs div 2)) < 0")
      case True
      with False 1(1) show ?thesis
        using mset_take_drop [of "length xs div 2" xs]
        by (subst binary_insert.simps) simp
    next
      case neg: False
      with False 1(2) show ?thesis
        using mset_take_drop [of "Suc (length xs div 2)" xs]
        by (subst binary_insert.simps) simp
    qed
  qed
qed

lemma set_binary_insert: "set (binary_insert cmp p xs) = insert p (set xs)"
  using mset_binary_insert [of cmp p xs] by (metis set_mset_add_mset_insert set_mset_mset)

lemma mset_insert_all:
  "mset (foldl (\<lambda>sorted pivot. binary_insert cmp pivot sorted) run rest) = mset run + mset rest"
  by (induction rest arbitrary: run) (simp_all add: mset_binary_insert)

lemma mset_array_sort: "mset (array_sort cmp xs) = mset xs"
proof -
  obtain run rest where c: "countAndMakeRun cmp xs = (run, rest)"
    by (cases "countAndMakeRun cmp xs")
  with countAndMakeRun_mset [OF c] show ?thesis
    by (simp add: array_sort_def mset_insert_all)
qed

lemma set_array_sort: "set (array_sort cmp xs) = set xs"
  using mset_array_sort [of cmp xs] by (metis set_mset_mset)

lemma array_sort_Nil [simp]: "array_sort cmp [] = []"
  by (simp add: array_sort_def)

lemma filter_filter_neg: "filter P (filter (\<lambda>k. \<not> P k) xs) = []"
  by (induction xs) simp_all

lemma children_after_sort:
  "jq_children (timeline (sortUsingNestedText sel ks d pg)) sel
     = array_sort (compareFn ks d) (jq_children (timeline pg) sel)"
proof (cases "timeline pg")
  case None
  then show ?thesis by (simp add: sortUsingNestedText_def)
next
  case (Some kids)
  let ?items = "array_sort (compareFn ks d) (filter (matches sel) kids)"
  have rest: "filter (\<lambda>k. k \<notin> set ?items) kids = filter (\<lambda>k. \<not> matches sel k) kids"
    by (rule filter_cong) (auto simp: set_array_sort)
  have keep: "filter (matches sel) ?items = ?items"
    by (simp add: set_array_sort)
  show ?thesis
    using Some by (simp add: sortUsingNestedText_def Let_def rest keep filter_filter_neg)
qed

lemma timeline_css [simp]: "timeline (css s p v pg) = timeline pg"
  by (simp add: css_def)

lemma timeline_removeAttr_style [simp]: "timeline (removeAttr_style s pg) = timeline pg"
  by (simp add: removeAttr_style_def)

lemma items_of_sortwc:
  "items_of (sortwc pg)
     = array_sort (compareFn (TagClass ''span'' ''wc'') False) (items_of pg)"
  by (simp add: items_of_def sortwc_def children_after_sort)

lemma items_of_sortdate:
  "items_of (sortdate pg)
     = array_sort (compareFn (TagClass ''span'' ''date'') True) (items_of pg)"
  by (simp add: items_of_def sortdate_def children_after_sort)

text \<open>
  C1. Whatever the items are, and whichever key is chosen first, re-sorting by one key
  and then by the other keeps the items: the multiset of \<open>li\<close> items after the two clicks
  is the multiset before them, and so it is after the first click alone.
\<close>

theorem resort_keeps_items:
  "mset (items_of (sortwc pg)) = mset (items_of pg) \<and>
   mset (items_of (sortdate pg)) = mset (items_of pg) \<and>
   mset (items_of (sortdate (sortwc pg))) = mset (items_of pg) \<and>
   mset (items_of (sortwc (sortdate pg))) = mset (items_of pg)"
  by (simp add: items_of_sortwc items_of_sortdate mset_array_sort)

subsection \<open>The comparator in terms of the keys\<close>

lemma compareFn_keys:
  "compareFn ks d a b = (if key_lt ks d b a then - 1 else if key_lt ks d a b then 1 else 0)"
  by (simp add: compareFn_def key_lt_def attr_key_def num_key_def Let_def)

lemma str_lt_irrefl: "\<not> str_lt a a"
  by (induction a) simp_all

lemma str_lt_total: "\<not> str_lt a b \<Longrightarrow> \<not> str_lt b a \<Longrightarrow> a = b"
proof (induction a b rule: str_lt.induct)
  case (4 x xs y ys)
  then have "(of_char x :: nat) = of_char y" by auto
  then have "x = y" by simp
  with 4 show ?case by auto
qed simp_all

lemma str_lt_trans: "str_lt a b \<Longrightarrow> str_lt b c \<Longrightarrow> str_lt a c"
proof (induction a b arbitrary: c rule: str_lt.induct)
  case (2 y ys)
  then show ?case by (cases c) simp_all
next
  case (4 x xs y ys)
  then show ?case by (cases c) auto
qed simp_all

lemma str_lt_between: "str_lt a c \<Longrightarrow> str_lt a b \<or> str_lt b c"
  using str_lt_total [of a b] str_lt_trans [of b a c] by blast

lemma str_lt_asym: "str_lt a b \<Longrightarrow> \<not> str_lt b a"
  using str_lt_trans [of a b a] str_lt_irrefl [of a] by blast

lemma key_lt_asym: "key_lt ks d a b \<Longrightarrow> \<not> key_lt ks d b a"
  by (cases "attr_key ks a"; cases "attr_key ks b"; cases "num_key ks a"; cases "num_key ks b")
     (auto simp: key_lt_def dest: str_lt_asym)

lemma key_lt_trans: "key_lt ks d a b \<Longrightarrow> key_lt ks d b c \<Longrightarrow> key_lt ks d a c"
  by (cases "attr_key ks a"; cases "attr_key ks b"; cases "attr_key ks c";
      cases "num_key ks a"; cases "num_key ks b"; cases "num_key ks c")
     (auto simp: key_lt_def split: if_splits dest: str_lt_trans)

lemma key_lt_between:
  assumes "has_key ks d b" "key_lt ks d a c"
  shows "key_lt ks d a b \<or> key_lt ks d b c"
proof (cases d)
  case True
  with assms obtain u v w where
    "attr_key ks a = Some u" "attr_key ks b = Some v" "attr_key ks c = Some w"
    by (cases "attr_key ks a"; cases "attr_key ks c") (auto simp: has_key_def key_lt_def)
  with True assms(2) show ?thesis
    using str_lt_between [of u w v] by (simp add: key_lt_def)
next
  case False
  with assms obtain u v w where
    "num_key ks a = Some u" "num_key ks b = Some v" "num_key ks c = Some w"
    by (cases "num_key ks a"; cases "num_key ks c") (auto simp: has_key_def key_lt_def)
  with False assms(2) show ?thesis by (auto simp: key_lt_def)
qed

text \<open>
  Reading a word count: a count above \<open>2 ^ 53\<close> is rounded as a double is, and a
  no-break space in front of the digits is skipped.
\<close>

lemma parseInt_rounds:
  "parseInt ''9007199254740993'' = Some 9007199254740992"
  "parseInt ''9007199254740995'' = Some 9007199254740996"
  by (simp_all add: parseInt_def is_space_def digit_val_def to_double_def Let_def)

lemma parseInt_skips_nbsp: "parseInt [CHR 0xA0, CHR ''4'', CHR ''2''] = Some 42"
  by (simp add: parseInt_def is_space_def digit_val_def to_double_def)

text \<open>The two tests the sort makes on the comparator, read on the keys.\<close>

lemma before_iff: "compareFn ks d x y < 0 \<longleftrightarrow> key_lt ks d y x"
  by (simp add: compareFn_keys)

lemma not_before_iff: "0 \<le> compareFn ks d x y \<longleftrightarrow> \<not> key_lt ks d y x"
  by (simp add: compareFn_keys)

lemma tie_iff_same_key:
  assumes "has_key ks d a" "has_key ks d b"
  shows "compareFn ks d a b = 0 \<longleftrightarrow> same_key ks d a b"
proof (cases d)
  case True
  with assms obtain u v where k: "attr_key ks a = Some u" "attr_key ks b = Some v"
    by (auto simp: has_key_def)
  show ?thesis
    using True k str_lt_total [of u v] str_lt_irrefl [of u]
    by (auto simp: compareFn_keys key_lt_def same_key_def)
next
  case False
  with assms obtain u v where k: "num_key ks a = Some u" "num_key ks b = Some v"
    by (auto simp: has_key_def)
  show ?thesis
    using False k by (auto simp: compareFn_keys key_lt_def same_key_def)
qed

lemma key_tie_same:
  assumes "has_key ks d a" "has_key ks d b" "\<not> key_lt ks d a b" "\<not> key_lt ks d b a"
  shows "same_key ks d a b"
  using assms tie_iff_same_key [of ks d a b] by (simp add: compareFn_keys)

lemma js_lt_irrefl: "\<not> js_lt_str k k" "\<not> js_lt_num n n"
  by (cases k, simp_all add: str_lt_irrefl) (cases n, simp_all)

lemma key_lt_not_same: "key_lt ks d x y \<Longrightarrow> \<not> same_key ks d x y"
  by (cases d) (auto simp: key_lt_def same_key_def js_lt_irrefl)

text \<open>Two items that tie with a keyed item are never in the strict order of the keys.\<close>

lemma ties_not_lt:
  assumes "has_key ks d a" "compareFn ks d a x = 0" "compareFn ks d a y = 0"
  shows "\<not> key_lt ks d x y"
proof
  assume lt: "key_lt ks d x y"
  then have "has_key ks d x" "has_key ks d y"
    by (cases d; cases "attr_key ks x"; cases "attr_key ks y"; cases "num_key ks x";
        cases "num_key ks y"; simp add: key_lt_def has_key_def)+
  with assms have "same_key ks d a x" "same_key ks d a y"
    by (simp_all add: tie_iff_same_key)
  then have "same_key ks d x y" by (auto simp: same_key_def split: if_splits)
  with lt show False by (simp add: key_lt_not_same)
qed


subsection \<open>The run the array starts with\<close>

lemma run_extend_descending:
  "run_extend (compareFn ks d) True prev xs = (run, rest) \<Longrightarrow>
     sorted_wrt (key_lt ks d) (prev # run)"
proof (induction xs arbitrary: prev run rest)
  case Nil
  then show ?case by simp
next
  case (Cons cur xs)
  show ?case
  proof (cases "key_lt ks d prev cur")
    case False
    with Cons.prems show ?thesis by (simp add: not_before_iff)
  next
    case True
    obtain r t where rt: "run_extend (compareFn ks d) True cur xs = (r, t)"
      by (cases "run_extend (compareFn ks d) True cur xs")
    from Cons.IH [OF rt] have chain: "sorted_wrt (key_lt ks d) (cur # r)" .
    from Cons.prems True rt have run: "run = cur # r" by (simp add: not_before_iff)
    from chain True have "\<forall>y\<in>set r. key_lt ks d prev y"
      by (auto intro: key_lt_trans)
    with chain True run show ?thesis by simp
  qed
qed

lemma run_extend_ascending:
  "list_all (has_key ks d) (prev # xs) \<Longrightarrow>
   run_extend (compareFn ks d) False prev xs = (run, rest) \<Longrightarrow>
     sorted_desc ks d (prev # run)"
proof (induction xs arbitrary: prev run rest)
  case Nil
  then show ?case by (simp add: sorted_desc_def)
next
  case (Cons cur xs)
  show ?case
  proof (cases "key_lt ks d prev cur")
    case True
    with Cons.prems show ?thesis by (simp add: before_iff sorted_desc_def)
  next
    case False
    obtain r t where rt: "run_extend (compareFn ks d) False cur xs = (r, t)"
      by (cases "run_extend (compareFn ks d) False cur xs")
    have "list_all (has_key ks d) (cur # xs)" using Cons.prems(1) by simp
    from Cons.IH [OF this rt] have chain: "sorted_desc ks d (cur # r)" .
    from Cons.prems False rt have run: "run = cur # r" by (simp add: before_iff)
    have "\<not> key_lt ks d prev y" if "y \<in> set r" for y
    proof
      assume "key_lt ks d prev y"
      moreover have "has_key ks d cur" using Cons.prems(1) by simp
      ultimately have "key_lt ks d prev cur \<or> key_lt ks d cur y"
        by (intro key_lt_between)
      with False chain that show False by (auto simp: sorted_desc_def)
    qed
    with chain False run show ?thesis by (auto simp: sorted_desc_def)
  qed
qed

lemma run_extend_sorted:
  "sorted_desc ks d (prev # xs) \<Longrightarrow> run_extend (compareFn ks d) False prev xs = (xs, [])"
  by (induction xs arbitrary: prev) (auto simp: sorted_desc_def before_iff)

text \<open>
  Reversing a strictly descending run does not change the order of the items that
  satisfy \<open>Q\<close>, when no two of them are in the strict order: at most one is in the run.
\<close>

lemma filter_rev_chain:
  assumes "sorted_wrt lt xs" "\<And>x y. Q x \<Longrightarrow> Q y \<Longrightarrow> \<not> lt x y"
  shows "filter Q (rev xs) = filter Q xs"
  using assms(1)
proof (induction xs)
  case Nil
  then show ?case by simp
next
  case (Cons x xs)
  then have IH: "filter Q (rev xs) = filter Q xs" by simp
  show ?case
  proof (cases "Q x")
    case True
    with Cons.prems assms(2) have "\<forall>y\<in>set xs. \<not> Q y" by auto
    then have "filter Q xs = []" by (simp add: filter_empty_conv)
    with IH True show ?thesis by simp
  next
    case False
    with IH show ?thesis by simp
  qed
qed

lemma countAndMakeRun_keyed:
  assumes keyed: "list_all (has_key ks d) xs"
    and c: "countAndMakeRun (compareFn ks d) xs = (run, rest)"
    and Q: "\<And>x y. Q x \<Longrightarrow> Q y \<Longrightarrow> \<not> key_lt ks d x y"
  shows "sorted_desc ks d run \<and> filter Q run @ filter Q rest = filter Q xs"
proof -
  consider "xs = []" | v where "xs = [v]" | hi lo ys where "xs = hi # lo # ys"
    by (cases xs rule: list.exhaust [case_names Nil Cons]; cases "tl xs") auto
  then show ?thesis
  proof cases
    case 1
    with c show ?thesis by (auto simp: sorted_desc_def)
  next
    case 2
    with c show ?thesis by (auto simp: sorted_desc_def)
  next
    case (3 hi lo ys)
    then have xs: "xs = hi # lo # ys" .
    obtain r t where rt:
      "run_extend (compareFn ks d) (compareFn ks d lo hi < 0) lo ys = (r, t)"
      by (cases "run_extend (compareFn ks d) (compareFn ks d lo hi < 0) lo ys")
    from run_extend_append [OF rt] have ys: "r @ t = ys" .
    show ?thesis
    proof (cases "key_lt ks d hi lo")
      case True
      with rt have rt': "run_extend (compareFn ks d) True lo ys = (r, t)"
        by (simp add: before_iff)
      from run_extend_descending [OF rt'] have chain: "sorted_wrt (key_lt ks d) (lo # r)" .
      with True have "\<forall>y\<in>set r. key_lt ks d hi y" by (auto intro: key_lt_trans)
      with chain True have up: "sorted_wrt (key_lt ks d) (hi # lo # r)" by simp
      from c xs rt True have run: "run = rev (hi # lo # r)" and rest: "rest = t"
        by (simp_all add: before_iff)
      have "sorted_wrt (\<lambda>a b. \<not> key_lt ks d b a) (hi # lo # r)"
        by (rule sorted_wrt_mono_rel [OF _ up]) (auto dest: key_lt_asym)
      then have sorted: "sorted_desc ks d run"
        unfolding run sorted_desc_def by (simp only: sorted_wrt_rev)
      have "filter Q run = filter Q (hi # lo # r)"
        unfolding run by (rule filter_rev_chain [OF up Q])
      with sorted rest ys xs show ?thesis by (simp flip: filter_append)
    next
      case False
      with rt have rt': "run_extend (compareFn ks d) False lo ys = (r, t)"
        by (simp add: before_iff)
      have "list_all (has_key ks d) (lo # ys)" using keyed xs by simp
      from run_extend_ascending [OF this rt'] have chain: "sorted_desc ks d (lo # r)" .
      from c xs rt False have run: "run = hi # lo # r" and rest: "rest = t"
        by (simp_all add: before_iff)
      have "\<not> key_lt ks d hi y" if "y \<in> set r" for y
      proof
        assume "key_lt ks d hi y"
        moreover have "has_key ks d lo" using keyed xs by simp
        ultimately have "key_lt ks d hi lo \<or> key_lt ks d lo y" by (intro key_lt_between)
        with False chain that show False by (auto simp: sorted_desc_def)
      qed
      with chain False have "sorted_desc ks d run"
        unfolding run by (auto simp: sorted_desc_def)
      with run rest ys xs show ?thesis by (simp flip: filter_append)
    qed
  qed
qed

subsection \<open>Binary insertion\<close>

text \<open>
  Where the pivot goes in a sorted front part of keyed items: behind every item whose
  key is not smaller, in front of every item whose key is smaller.
\<close>

lemma binary_insert_place:
  assumes "has_key ks d p" "list_all (has_key ks d) xs" "sorted_desc ks d xs"
  shows "\<exists>ys zs. xs = ys @ zs \<and> binary_insert (compareFn ks d) p xs = ys @ p # zs \<and>
           (\<forall>y\<in>set ys. \<not> key_lt ks d y p) \<and> (\<forall>z\<in>set zs. key_lt ks d z p)"
  using assms(2,3)
proof (induction xs rule: length_induct)
  case (1 xs)
  show ?case
  proof (cases "xs = []")
    case True
    then show ?thesis by simp
  next
    case False
    let ?mid = "length xs div 2"
    let ?m = "xs ! ?mid"
    let ?L = "take ?mid xs"
    let ?R = "drop (Suc ?mid) xs"
    from False have mid: "?mid < length xs" by simp
    then have split: "xs = ?L @ ?m # ?R" by (rule id_take_nth_drop)
    have keyed: "list_all (has_key ks d) ?L" "has_key ks d ?m" "list_all (has_key ks d) ?R"
      using "1.prems"(1) mid by (auto simp: list_all_iff dest: in_set_takeD in_set_dropD)
    have "sorted_desc ks d (?L @ ?m # ?R)" using "1.prems"(2) split by simp
    then have sorted: "sorted_desc ks d ?L" "sorted_desc ks d ?R"
      and left: "\<forall>l\<in>set ?L. \<not> key_lt ks d l ?m"
      and right: "\<forall>r\<in>set ?R. \<not> key_lt ks d ?m r"
      by (auto simp: sorted_desc_def sorted_wrt_append)
    show ?thesis
    proof (cases "key_lt ks d ?m p")
      case True
      have "length ?L < length xs" using mid by simp
      with "1.IH" keyed(1) sorted(1) obtain ys zs where
        L: "?L = ys @ zs" "binary_insert (compareFn ks d) p ?L = ys @ p # zs"
          "\<forall>y\<in>set ys. \<not> key_lt ks d y p" "\<forall>z\<in>set zs. key_lt ks d z p"
        by blast
      have "key_lt ks d r p" if "r \<in> set ?R" for r
      proof -
        have "has_key ks d r" using keyed(3) that by (simp add: list_all_iff)
        with True have "key_lt ks d ?m r \<or> key_lt ks d r p" by (intro key_lt_between)
        with right that show ?thesis by blast
      qed
      with True L(4) have behind: "\<forall>z\<in>set (zs @ ?m # ?R). key_lt ks d z p" by auto
      have "binary_insert (compareFn ks d) p xs = ys @ p # (zs @ ?m # ?R)"
        using False True L(2) by (subst binary_insert.simps) (simp add: before_iff Cons_nth_drop_Suc mid)
      moreover have "xs = ys @ (zs @ ?m # ?R)" using split L(1) by simp
      ultimately show ?thesis using L(3) behind by blast
    next
      case neg: False
      have "length ?R < length xs" using mid by simp
      with "1.IH" keyed(3) sorted(2) obtain ys zs where
        R: "?R = ys @ zs" "binary_insert (compareFn ks d) p ?R = ys @ p # zs"
          "\<forall>y\<in>set ys. \<not> key_lt ks d y p" "\<forall>z\<in>set zs. key_lt ks d z p"
        by blast
      have "\<not> key_lt ks d l p" if "l \<in> set ?L" for l
      proof
        assume "key_lt ks d l p"
        with keyed(2) have "key_lt ks d l ?m \<or> key_lt ks d ?m p" by (intro key_lt_between)
        with left neg that show False by blast
      qed
      with neg R(3) have front: "\<forall>y\<in>set (?L @ ?m # ys). \<not> key_lt ks d y p" by auto
      have "binary_insert (compareFn ks d) p xs = (?L @ ?m # ys) @ p # zs"
        using False neg R(2)
        by (subst binary_insert.simps) (simp add: before_iff take_Suc_conv_app_nth mid)
      moreover have "xs = (?L @ ?m # ys) @ zs" using split R(1) by simp
      ultimately show ?thesis using front R(4) by blast
    qed
  qed
qed

lemma sorted_binary_insert:
  assumes "has_key ks d p" "list_all (has_key ks d) xs" "sorted_desc ks d xs"
  shows "sorted_desc ks d (binary_insert (compareFn ks d) p xs)"
proof -
  from binary_insert_place [OF assms] obtain ys zs where
    p: "xs = ys @ zs" "binary_insert (compareFn ks d) p xs = ys @ p # zs"
      "\<forall>y\<in>set ys. \<not> key_lt ks d y p" "\<forall>z\<in>set zs. key_lt ks d z p"
    by blast
  from p(4) have "\<forall>z\<in>set zs. \<not> key_lt ks d p z" by (auto dest: key_lt_asym)
  with assms(3) p(1,3) show ?thesis
    unfolding p(2) by (auto simp: sorted_desc_def sorted_wrt_append)
qed

lemma filter_binary_insert:
  assumes "has_key ks d p" "list_all (has_key ks d) xs" "sorted_desc ks d xs"
    and Q: "\<And>x y. Q x \<Longrightarrow> Q y \<Longrightarrow> \<not> key_lt ks d x y"
  shows "filter Q (binary_insert (compareFn ks d) p xs) = filter Q (xs @ [p])"
proof -
  from binary_insert_place [OF assms(1-3)] obtain ys zs where
    p: "xs = ys @ zs" "binary_insert (compareFn ks d) p xs = ys @ p # zs"
      "\<forall>z\<in>set zs. key_lt ks d z p"
    by blast
  have result: "filter Q (binary_insert (compareFn ks d) p xs) = filter Q (ys @ p # zs)"
    by (simp only: p(2))
  have input: "filter Q (xs @ [p]) = filter Q (ys @ zs @ [p])"
    by (simp only: p(1) append_assoc)
  show ?thesis
  proof (cases "Q p")
    case True
    with p(3) Q have "\<forall>z\<in>set zs. \<not> Q z" by blast
    then have "filter Q zs = []" by (simp add: filter_empty_conv)
    with True show ?thesis unfolding result input by simp
  next
    case False
    then show ?thesis unfolding result input by simp
  qed
qed

lemma insert_all_keyed:
  assumes "list_all (has_key ks d) run" "list_all (has_key ks d) rest" "sorted_desc ks d run"
    and Q: "\<And>x y. Q x \<Longrightarrow> Q y \<Longrightarrow> \<not> key_lt ks d x y"
  shows "sorted_desc ks d
           (foldl (\<lambda>sorted pivot. binary_insert (compareFn ks d) pivot sorted) run rest) \<and>
         filter Q (foldl (\<lambda>sorted pivot. binary_insert (compareFn ks d) pivot sorted) run rest)
           = filter Q (run @ rest)"
  using assms(1-3)
proof (induction rest arbitrary: run)
  case Nil
  then show ?case by simp
next
  case (Cons p rest)
  let ?next = "binary_insert (compareFn ks d) p run"
  from Cons.prems have p: "has_key ks d p" and rest: "list_all (has_key ks d) rest" by simp_all
  have "list_all (has_key ks d) ?next"
    using Cons.prems(1) p by (simp add: list_all_iff set_binary_insert)
  moreover have "sorted_desc ks d ?next"
    using p Cons.prems(1,3) by (rule sorted_binary_insert)
  ultimately have
    "sorted_desc ks d
       (foldl (\<lambda>sorted pivot. binary_insert (compareFn ks d) pivot sorted) ?next rest) \<and>
     filter Q (foldl (\<lambda>sorted pivot. binary_insert (compareFn ks d) pivot sorted) ?next rest)
       = filter Q (?next @ rest)"
    using rest by (intro Cons.IH)
  moreover have "filter Q ?next = filter Q (run @ [p])"
    using p Cons.prems(1,3) Q by (rule filter_binary_insert)
  ultimately show ?case by simp
qed

subsection \<open>The result is fixed by what a stable sort is\<close>

text \<open>
  For items that all carry the key, the list \<open>array_sort\<close> returns is in descending order
  of the key and keeps the order of the items that satisfy a property \<open>Q\<close> no two
  holders of which differ in key. It is also the only list that is a permutation of the
  input, sorted, and stable (\<open>array_sort_determined\<close>): whatever way an engine sorts, a
  stable sort of such items returns this list.
\<close>

lemma array_sort_keyed:
  assumes keyed: "list_all (has_key ks d) xs"
    and Q: "\<And>x y. Q x \<Longrightarrow> Q y \<Longrightarrow> \<not> key_lt ks d x y"
  shows "sorted_desc ks d (array_sort (compareFn ks d) xs) \<and>
         filter Q (array_sort (compareFn ks d) xs) = filter Q xs"
proof -
  obtain run rest where c: "countAndMakeRun (compareFn ks d) xs = (run, rest)"
    by (cases "countAndMakeRun (compareFn ks d) xs")
  from countAndMakeRun_keyed [OF keyed c Q]
  have run: "sorted_desc ks d run" and flt: "filter Q run @ filter Q rest = filter Q xs"
    by simp_all
  from countAndMakeRun_mset [OF c] have "set run \<union> set rest = set xs"
    by (metis set_mset_mset set_mset_union)
  with keyed have k: "list_all (has_key ks d) run" "list_all (has_key ks d) rest"
    by (auto simp: list_all_iff)
  from insert_all_keyed [OF k run Q] flt c show ?thesis
    by (simp add: array_sort_def)
qed

lemma sorted_array_sort:
  "list_all (has_key ks d) xs \<Longrightarrow> sorted_desc ks d (array_sort (compareFn ks d) xs)"
  using array_sort_keyed [of ks d xs "\<lambda>x. False"] by simp

lemma ties_array_sort:
  assumes "list_all (has_key ks d) xs" "has_key ks d a"
  shows "filter (\<lambda>b. compareFn ks d a b = 0) (array_sort (compareFn ks d) xs)
           = filter (\<lambda>b. compareFn ks d a b = 0) xs"
  using array_sort_keyed [OF assms(1), of "\<lambda>b. compareFn ks d a b = 0"] ties_not_lt [OF assms(2)]
  by blast

lemma array_sort_sorted:
  assumes "sorted_desc ks d xs"
  shows "array_sort (compareFn ks d) xs = xs"
proof -
  consider "xs = []" | v where "xs = [v]" | hi lo ys where "xs = hi # lo # ys"
    by (cases xs rule: list.exhaust [case_names Nil Cons]; cases "tl xs") auto
  then show ?thesis
  proof cases
    case 1
    then show ?thesis by simp
  next
    case 2
    then show ?thesis by (simp add: array_sort_def)
  next
    case (3 hi lo ys)
    with assms have "\<not> key_lt ks d hi lo" and "sorted_desc ks d (lo # ys)"
      by (simp_all add: sorted_desc_def)
    with 3 show ?thesis
      by (simp add: array_sort_def before_iff run_extend_sorted)
  qed
qed

lemma sorted_stable_unique:
  assumes "list_all (has_key ks d) ys" "mset ys = mset zs"
    and "sorted_desc ks d ys" "sorted_desc ks d zs"
    and "\<And>a. has_key ks d a \<Longrightarrow> filter (same_key ks d a) ys = filter (same_key ks d a) zs"
  shows "ys = zs"
  using assms
proof (induction ys arbitrary: zs)
  case Nil
  then show ?case by simp
next
  case (Cons y ys)
  from Cons.prems(2) obtain z zs' where zs: "zs = z # zs'" by (cases zs) auto
  have sets: "set (y # ys) = set (z # zs')"
    using Cons.prems(2) zs by (metis set_mset_mset)
  have ky: "has_key ks d y" using Cons.prems(1) by simp
  have kz: "has_key ks d z" using Cons.prems(1) sets by (auto simp: list_all_iff)
  have refl: "same_key ks d y y" by (simp add: same_key_def)
  have "\<not> key_lt ks d y z"
  proof (cases "z = y")
    case True
    then show ?thesis using key_lt_asym [of ks d y y] by auto
  next
    case False
    with sets have "z \<in> set ys" by auto
    with Cons.prems(3) show ?thesis by (auto simp: sorted_desc_def)
  qed
  moreover have "\<not> key_lt ks d z y"
  proof (cases "z = y")
    case True
    then show ?thesis using key_lt_asym [of ks d y y] by auto
  next
    case False
    with sets have "y \<in> set zs'" by auto
    with Cons.prems(4) zs show ?thesis by (auto simp: sorted_desc_def)
  qed
  ultimately have same: "same_key ks d y z" using ky kz by (intro key_tie_same)
  from Cons.prems(5) [OF ky] zs same refl have yz: "y = z" by simp
  have "ys = zs'"
  proof (rule Cons.IH)
    show "list_all (has_key ks d) ys" using Cons.prems(1) by simp
    show "mset ys = mset zs'" using Cons.prems(2) zs yz by simp
    show "sorted_desc ks d ys" using Cons.prems(3) by (simp add: sorted_desc_def)
    show "sorted_desc ks d zs'" using Cons.prems(4) zs by (simp add: sorted_desc_def)
    show "filter (same_key ks d a) ys = filter (same_key ks d a) zs'" if "has_key ks d a" for a
      using Cons.prems(5) [OF that] zs yz by (simp split: if_splits)
  qed
  with zs yz show ?case by simp
qed

lemma array_sort_determined:
  assumes keyed: "list_all (has_key ks d) xs"
    and perm: "mset ys = mset xs"
    and sorted: "sorted_desc ks d ys"
    and stable: "\<And>a. has_key ks d a \<Longrightarrow>
           filter (\<lambda>b. compareFn ks d a b = 0) ys = filter (\<lambda>b. compareFn ks d a b = 0) xs"
  shows "ys = array_sort (compareFn ks d) xs"
proof (rule sorted_stable_unique [of ks d])
  have sets: "set ys = set xs" using perm by (metis set_mset_mset)
  show kys: "list_all (has_key ks d) ys" using keyed sets by (simp add: list_all_iff)
  show "mset ys = mset (array_sort (compareFn ks d) xs)" using perm by (simp add: mset_array_sort)
  show "sorted_desc ks d ys" by (rule sorted)
  show "sorted_desc ks d (array_sort (compareFn ks d) xs)" using keyed by (rule sorted_array_sort)
  fix a
  assume a: "has_key ks d a"
  have tie: "filter (same_key ks d a) us = filter (\<lambda>b. compareFn ks d a b = 0) us"
    if "list_all (has_key ks d) us" for us
    by (rule filter_cong) (use that a in \<open>auto simp: list_all_iff tie_iff_same_key\<close>)
  have "list_all (has_key ks d) (array_sort (compareFn ks d) xs)"
    using keyed by (simp add: list_all_iff set_array_sort)
  then show "filter (same_key ks d a) ys
      = filter (same_key ks d a) (array_sort (compareFn ks d) xs)"
    using tie [OF kys] tie [of "array_sort (compareFn ks d) xs"] stable [OF a]
      ties_array_sort [OF keyed a] by simp
qed

subsection \<open>Stability\<close>

lemma num_key_work: "num_key (TagClass ''span'' ''wc'') (work dt label wc) = parseInt wc"
  by (simp add: num_key_def work_def jq_find_def jq_text_def)

lemma attr_key_work: "attr_key (TagClass ''span'' ''date'') (work dt label wc) = Some dt"
  by (simp add: attr_key_def work_def jq_find_def)

lemma li_work: "matches (Tag ''li'') (work dt label wc)"
  by (simp add: work_def)

lemma parseInt_examples:
  "parseInt ''170'' = Some 170" "parseInt ''1200'' = Some 1200" "parseInt ''90'' = Some 90"
  "parseInt ''190'' = Some 190"
  by (simp_all add: parseInt_def is_space_def digit_val_def to_double_def)

text \<open>
  C2, as the claim states it, fails on a page with an item whose word count is not a
  number. Four items with the \<open>span.wc\<close> texts 90, 170, n/a and 200, in this order: the
  key of the third is \<open>NaN\<close>, so the comparator returns \<open>0\<close> for it and the item of 200
  words, whichever comes first. In the markup the item without a count is in front of
  the item of 200 words; after the sort by word count it is behind it.
\<close>

theorem resort_tie_reordered:
  "compareFn (TagClass ''span'' ''wc'') False
     (work ''2019-03-20'' ''March 2019'' ''n/a'') (work ''2019-01-04'' ''January 2019'' ''200'') = 0 \<and>
   compareFn (TagClass ''span'' ''wc'') False
     (work ''2019-01-04'' ''January 2019'' ''200'') (work ''2019-03-20'' ''March 2019'' ''n/a'') = 0 \<and>
   jq_children (timeline unkeyed_page) (Tag ''li'')
     = [work ''2020-08-06'' ''August 2020'' ''90'', work ''2020-03-18'' ''March 2020'' ''170'',
        work ''2019-03-20'' ''March 2019'' ''n/a'', work ''2019-01-04'' ''January 2019'' ''200''] \<and>
   jq_children (timeline (sortUsingNestedText (Tag ''li'') (TagClass ''span'' ''wc'') False
       unkeyed_page)) (Tag ''li'')
     = [work ''2019-01-04'' ''January 2019'' ''200'', work ''2020-03-18'' ''March 2020'' ''170'',
        work ''2020-08-06'' ''August 2020'' ''90'', work ''2019-03-20'' ''March 2019'' ''n/a'']"
  by code_simp

text \<open>
  C2, amended. On every page whose items all carry the key of the sort mode, the
  re-sort is a stable sort: the items after \<open>sortUsingNestedText\<close> are the items before
  it, they are in descending order of the key, and for every item \<open>a\<close> that carries the
  key, the items whose key compares equal to the key of \<open>a\<close> (the comparator returns
  \<open>0\<close>) are in the same order as before. Nothing is said of a page with an item that
  has no key: there the comparator returns \<open>0\<close> for pairs it otherwise orders, and the
  order is what the steps of the engine happen to give.
\<close>

theorem resort_stable:
  assumes keyed: "list_all (has_key ks d) (jq_children (timeline pg) sel)"
    and a: "has_key ks d a"
  shows "mset (jq_children (timeline (sortUsingNestedText sel ks d pg)) sel)
           = mset (jq_children (timeline pg) sel) \<and>
         sorted_desc ks d (jq_children (timeline (sortUsingNestedText sel ks d pg)) sel) \<and>
         filter (\<lambda>b. compareFn ks d a b = 0)
           (jq_children (timeline (sortUsingNestedText sel ks d pg)) sel)
         = filter (\<lambda>b. compareFn ks d a b = 0) (jq_children (timeline pg) sel)"
  using keyed a
  by (simp add: children_after_sort mset_array_sort sorted_array_sort ties_array_sort)

text \<open>
  Three items with word counts 190, 1200 and 190: after the sort by word count the
  items are in descending order of the count, and the two items of 190 words are still
  in their order of the markup.
\<close>

theorem resort_stable_witness:
  "mset (jq_children (timeline (sortUsingNestedText (Tag ''li'') (TagClass ''span'' ''wc'') False
        (page_of [work ''2020-08-06'' ''August 2020'' ''190'',
                  work ''2020-09-10'' ''Summer 2020'' ''1200'',
                  work ''2019-05-01'' ''May 2019'' ''190'']))) (Tag ''li''))
     = mset [work ''2020-08-06'' ''August 2020'' ''190'',
             work ''2020-09-10'' ''Summer 2020'' ''1200'',
             work ''2019-05-01'' ''May 2019'' ''190''] \<and>
   sorted_desc (TagClass ''span'' ''wc'') False
     (jq_children (timeline (sortUsingNestedText (Tag ''li'') (TagClass ''span'' ''wc'') False
        (page_of [work ''2020-08-06'' ''August 2020'' ''190'',
                  work ''2020-09-10'' ''Summer 2020'' ''1200'',
                  work ''2019-05-01'' ''May 2019'' ''190'']))) (Tag ''li'')) \<and>
   filter (\<lambda>b. compareFn (TagClass ''span'' ''wc'') False (work ''2020-08-06'' ''August 2020'' ''190'') b = 0)
     (jq_children (timeline (sortUsingNestedText (Tag ''li'') (TagClass ''span'' ''wc'') False
        (page_of [work ''2020-08-06'' ''August 2020'' ''190'',
                  work ''2020-09-10'' ''Summer 2020'' ''1200'',
                  work ''2019-05-01'' ''May 2019'' ''190'']))) (Tag ''li''))
   = [work ''2020-08-06'' ''August 2020'' ''190'', work ''2019-05-01'' ''May 2019'' ''190'']"
proof -
  let ?ks = "TagClass ''span'' ''wc''"
  let ?a = "work ''2020-08-06'' ''August 2020'' ''190''"
  let ?pg = "page_of [?a, work ''2020-09-10'' ''Summer 2020'' ''1200'',
                      work ''2019-05-01'' ''May 2019'' ''190'']"
  have keyed: "list_all (has_key ?ks False) (jq_children (timeline ?pg) (Tag ''li''))"
    by (simp add: page_of_def li_work has_key_def num_key_work parseInt_examples)
  have a: "has_key ?ks False ?a"
    by (simp add: has_key_def num_key_work parseInt_examples)
  have before: "jq_children (timeline ?pg) (Tag ''li'')
      = [?a, work ''2020-09-10'' ''Summer 2020'' ''1200'', work ''2019-05-01'' ''May 2019'' ''190'']"
    by (simp add: page_of_def li_work)
  have ties: "filter (\<lambda>b. compareFn ?ks False ?a b = 0)
      [?a, work ''2020-09-10'' ''Summer 2020'' ''1200'', work ''2019-05-01'' ''May 2019'' ''190'']
      = [?a, work ''2019-05-01'' ''May 2019'' ''190'']"
    by (simp add: before_iff compareFn_keys key_lt_def num_key_work parseInt_examples)
  show ?thesis
    using resort_stable [OF keyed a] unfolding before ties .
qed

subsection \<open>Sorted input\<close>

text \<open>
  C3. The re-sort is idempotent: when the items all carry the key and are already in
  descending order of it, \<open>sortUsingNestedText\<close> with that key leaves the sequence of
  items as it was.
\<close>

theorem resort_idempotent:
  assumes keyed: "list_all (has_key ks d) (jq_children (timeline pg) sel)"
    and sorted: "sorted_desc ks d (jq_children (timeline pg) sel)"
  shows "jq_children (timeline (sortUsingNestedText sel ks d pg)) sel
           = jq_children (timeline pg) sel"
  using sorted by (simp add: children_after_sort array_sort_sorted)

theorem resort_idempotent_witness:
  "jq_children (timeline (sortUsingNestedText (Tag ''li'') (TagClass ''span'' ''date'') True
      (page_of [work ''2020-09-10'' ''Summer 2020'' ''1200'',
                work ''2020-08-06'' ''August 2020'' ''170'',
                work ''2020-08-06'' ''August 2020'' ''190'']))) (Tag ''li'')
   = [work ''2020-09-10'' ''Summer 2020'' ''1200'',
      work ''2020-08-06'' ''August 2020'' ''170'',
      work ''2020-08-06'' ''August 2020'' ''190'']"
proof -
  let ?ks = "TagClass ''span'' ''date''"
  let ?pg = "page_of [work ''2020-09-10'' ''Summer 2020'' ''1200'',
                      work ''2020-08-06'' ''August 2020'' ''170'',
                      work ''2020-08-06'' ''August 2020'' ''190'']"
  have keyed: "list_all (has_key ?ks True) (jq_children (timeline ?pg) (Tag ''li''))"
    by (simp add: page_of_def li_work has_key_def attr_key_work)
  have sorted: "sorted_desc ?ks True (jq_children (timeline ?pg) (Tag ''li''))"
    by (simp add: page_of_def li_work sorted_desc_def key_lt_def attr_key_work)
  show ?thesis
    using resort_idempotent [OF keyed sorted] by (simp add: page_of_def li_work)
qed

subsection \<open>The two examples of the page\<close>

text \<open>
  C4. Sorting by word count: three items whose \<open>span.wc\<close> texts parse to 170, 1200 and
  90 come out in the order 1200, 170, 90. The counts compare as numbers.
\<close>

theorem resort_by_word_count:
  assumes "items_of pg = [a, b, c]"
    and "num_key (TagClass ''span'' ''wc'') a = Some 170"
    and "num_key (TagClass ''span'' ''wc'') b = Some 1200"
    and "num_key (TagClass ''span'' ''wc'') c = Some 90"
  shows "items_of (sortwc pg) = [b, a, c]"
  using assms
  by (simp add: items_of_sortwc array_sort_def binary_insert.simps compareFn_keys key_lt_def)

theorem resort_by_word_count_witness:
  "items_of (sortwc (page_of
      [TextNode [CHR 0x0A], work ''2020-08-06'' ''August 2020'' ''170'',
       TextNode [CHR 0x0A], work ''2020-09-10'' ''Summer 2020'' ''1200'',
       TextNode [CHR 0x0A], work ''2019-01-04'' ''January 2019'' ''90'']))
   = [work ''2020-09-10'' ''Summer 2020'' ''1200'',
      work ''2020-08-06'' ''August 2020'' ''170'',
      work ''2019-01-04'' ''January 2019'' ''90'']"
  by (rule resort_by_word_count)
     (simp_all add: items_of_def page_of_def li_work num_key_work parseInt_examples)

text \<open>
  C5. Sorting by date: three items whose \<open>span.date\<close> ids are 2019-01-01, 2020-09-10
  and 2018-06-19 come out in the order 2020-09-10, 2019-01-01, 2018-06-19. The ids
  compare as strings.
\<close>

theorem resort_by_date:
  assumes "items_of pg = [a, b, c]"
    and "attr_key (TagClass ''span'' ''date'') a = Some ''2019-01-01''"
    and "attr_key (TagClass ''span'' ''date'') b = Some ''2020-09-10''"
    and "attr_key (TagClass ''span'' ''date'') c = Some ''2018-06-19''"
  shows "items_of (sortdate pg) = [b, a, c]"
  using assms
  by (simp add: items_of_sortdate array_sort_def binary_insert.simps compareFn_keys key_lt_def)

theorem resort_by_date_witness:
  "items_of (sortdate (page_of
      [TextNode [CHR 0x0A], work ''2019-01-01'' ''January 2019'' ''300'',
       TextNode [CHR 0x0A], work ''2020-09-10'' ''Summer 2020'' ''1200'',
       TextNode [CHR 0x0A], work ''2018-06-19'' ''June 2018'' ''90'']))
   = [work ''2020-09-10'' ''Summer 2020'' ''1200'',
      work ''2019-01-01'' ''January 2019'' ''300'',
      work ''2018-06-19'' ''June 2018'' ''90'']"
  by (rule resort_by_date)
     (simp_all add: items_of_def page_of_def li_work attr_key_work)

subsection \<open>Nothing to sort\<close>

text \<open>
  C6, as the claim states it, fails on a page without the \<open>timeline\<close> element: the call
  writes one line to the console, at the level of \<open>console.log\<close>, and no warning.
\<close>

theorem resort_missing_target_logs_no_warning:
  "timeline empty_page = None \<and>
   console (sortUsingNestedText (Tag ''li'') (TagClass ''span'' ''wc'') False empty_page)
     = [(Log, ''hi[object Object]'')]"
  by (simp add: sortUsingNestedText_def empty_page_def)

text \<open>
  C6, amended. When the parent container is missing, or has no item that matches, the
  call leaves the document and the styles as they are and raises nothing; its one
  effect is the line \<open>hi[object Object]\<close> that every call writes with \<open>console.log\<close>.
\<close>

theorem resort_nothing_to_sort:
  assumes "jq_children (timeline pg) sel = []"
  shows "sortUsingNestedText sel ks d pg
           = pg\<lparr>console := console pg @ [(Log, ''hi[object Object]'')]\<rparr>"
proof (cases "timeline pg")
  case None
  then show ?thesis by (simp add: sortUsingNestedText_def)
next
  case (Some kids)
  with assms have "filter (matches sel) kids = []" by simp
  with Some
  have "jq_append (timeline pg)
          (array_sort (compareFn ks d) (jq_children (timeline pg) sel)) = timeline pg"
    by simp
  then show ?thesis by (simp add: sortUsingNestedText_def)
qed

theorem resort_nothing_to_sort_witness:
  "sortUsingNestedText (Tag ''li'') (TagClass ''span'' ''date'') True (page_of [TextNode [CHR 0x0A]])
     = \<lparr>timeline = Some [TextNode [CHR 0x0A]], styles = Map.empty,
        console = [(Log, ''hi[object Object]'')]\<rparr>"
  using resort_nothing_to_sort [of "page_of [TextNode [CHR 0x0A]]" "Tag ''li''"
      "TagClass ''span'' ''date''" True]
  by (simp add: page_of_def)

section \<open>Properties of the verification scripts\<close>

lemma flags_console [simp]:
  "hasErrors (console_log m r) = hasErrors r" "hasWarnings (console_log m r) = hasWarnings r"
  "hasErrors (console_warn m r) = hasErrors r" "hasWarnings (console_warn m r) = hasWarnings r"
  "hasErrors (console_error m r) = hasErrors r" "hasWarnings (console_error m r) = hasWarnings r"
  by (simp_all add: console_log_def console_warn_def console_error_def)

lemma flags_set [simp]:
  "hasErrors (set_hasErrors r) = True" "hasWarnings (set_hasErrors r) = hasWarnings r"
  "hasErrors (set_hasWarnings r) = hasErrors r" "hasWarnings (set_hasWarnings r) = True"
  by (simp_all add: set_hasErrors_def set_hasWarnings_def)

lemma fold_seo_image:
  "fold seo_image imgs (r, k) = (r', k') \<Longrightarrow>
     hasErrors r' = hasErrors r \<and> hasWarnings r' = hasWarnings r \<and>
     k' = k + length (filter blank_alt imgs)"
proof (induction imgs arbitrary: r k)
  case Nil
  then show ?case by simp
next
  case (Cons img imgs)
  obtain src alt where img: "img = (src, alt)" by (cases img)
  show ?case
  proof (cases "blank_alt img")
    case True
    then have "seo_image img (r, k)
                 = (console_error (''Image missing alt text: '' @ src_or_unknown src) r, k + 1)"
      using img by (cases alt) (auto simp: seo_image_def blank_alt_def js_trim_def)
    with Cons.prems Cons.IH [of "console_error (''Image missing alt text: '' @ src_or_unknown src) r" "k + 1"]
    show ?thesis using True by simp
  next
    case False
    then have "seo_image img (r, k) = (r, k)"
      using img by (cases alt) (auto simp: seo_image_def blank_alt_def js_trim_def)
    with Cons.prems Cons.IH [of r k] show ?thesis using False by simp
  qed
qed

lemma flags_seo_test12:
  "hasErrors (seo_test12 d r) = (hasErrors r \<or> filter blank_alt (seo_images d) \<noteq> [])"
  "hasWarnings (seo_test12 d r) = hasWarnings r"
proof -
  obtain r' k' where f: "fold seo_image (seo_images d)
      (console_log ''Checking images for alt text...'' r, 0) = (r', k')"
    by (cases "fold seo_image (seo_images d) (console_log ''Checking images for alt text...'' r, 0)")
  from fold_seo_image [OF f]
  have *: "hasErrors r' = hasErrors r" "hasWarnings r' = hasWarnings r"
    "k' = length (filter blank_alt (seo_images d))" by simp_all
  show "hasErrors (seo_test12 d r) = (hasErrors r \<or> filter blank_alt (seo_images d) \<noteq> [])"
    using f * by (cases "seo_images d") (auto simp: seo_test12_def)
  show "hasWarnings (seo_test12 d r) = hasWarnings r"
    using f * by (auto simp: seo_test12_def)
qed

lemma flags_seo_tests:
  "hasErrors (seo_test1 d r) = hasErrors r"
  "hasErrors (seo_test2 d r) = (hasErrors r \<or> \<not> seo_viewport d)"
  "hasErrors (seo_test3 d r) = (hasErrors r \<or> \<not> (seo_ogTitle d \<and> seo_ogDesc d \<and> seo_ogUrl d))"
  "hasErrors (seo_test4 d r) = (hasErrors r \<or> \<not> (seo_twitterCard d \<and> seo_twitterTitle d \<and> seo_twitterDesc d))"
  "hasErrors (seo_test5 d r) = (hasErrors r \<or> \<not> seo_canonical d)"
  "hasErrors (seo_test6 d r) = hasErrors r"
  "hasErrors (seo_test7 d r) = (hasErrors r \<or> (case seo_title d of None \<Rightarrow> True | Some t \<Rightarrow> js_trim t = []))"
  "hasErrors (seo_test8 d r) = hasErrors r"
  "hasErrors (seo_test9 d r) = hasErrors r"
  "hasErrors (seo_test10 d r) = hasErrors r"
  "hasErrors (seo_test11 d r) = (hasErrors r \<or> seo_structuredData d = Some False)"
  "hasErrors (seo_test13 d c r) = (hasErrors r \<or> (c \<and> \<not> truthy (seo_htmlLang d)))"
  by (auto simp: seo_test1_def seo_test2_def seo_test3_def seo_test4_def seo_test5_def
      seo_test6_def seo_test7_def seo_test8_def seo_test9_def seo_test10_def seo_test11_def
      seo_test13_def Let_def split: option.splits)

lemma warns_seo_tests:
  "hasWarnings (seo_test1 d r) = (hasWarnings r \<or> (case seo_metaDesc d of None \<Rightarrow> True | Some content \<Rightarrow> \<not> truthy content))"
  "hasWarnings (seo_test2 d r) = hasWarnings r"
  "hasWarnings (seo_test3 d r) = (hasWarnings r \<or> \<not> seo_ogImage d)"
  "hasWarnings (seo_test4 d r) = hasWarnings r"
  "hasWarnings (seo_test5 d r) = hasWarnings r"
  "hasWarnings (seo_test6 d r) = (hasWarnings r \<or> \<not> seo_themeColor d)"
  "hasWarnings (seo_test7 d r) = hasWarnings r"
  "hasWarnings (seo_test8 d r) = (hasWarnings r \<or> \<not> seo_manifest d)"
  "hasWarnings (seo_test9 d r) = (hasWarnings r \<or> \<not> seo_favicon d)"
  "hasWarnings (seo_test10 d r) = (hasWarnings r \<or> \<not> seo_appleTouchIcon d)"
  "hasWarnings (seo_test11 d r) = (hasWarnings r \<or> seo_structuredData d = None)"
  "hasWarnings (seo_test13 d c r) = hasWarnings r"
  by (auto simp: seo_test1_def seo_test2_def seo_test3_def seo_test4_def seo_test5_def
      seo_test6_def seo_test7_def seo_test8_def seo_test9_def seo_test10_def seo_test11_def
      seo_test13_def Let_def split: option.splits)

lemma hasErrors_testHTMLForSEO:
  "hasErrors (testHTMLForSEO f n c r) = (hasErrors r \<or> seo_file_failure f c)"
  by (cases f)
     (auto simp: testHTMLForSEO_def flags_seo_tests flags_seo_test12 seo_hard_failure_def)

lemma hasWarnings_testHTMLForSEO:
  "hasWarnings (testHTMLForSEO (Doc d) n c r) = (hasWarnings r \<or> seo_soft_failure d)"
  by (auto simp: testHTMLForSEO_def warns_seo_tests flags_seo_test12 seo_soft_failure_def)


lemma fold_seo_page_tag:
  "fold (seo_page_tag name) tags (r, k) = (r', k') \<Longrightarrow>
     hasErrors r' = hasErrors r \<and> hasWarnings r' = hasWarnings r"
proof (induction tags arbitrary: r k)
  case Nil
  then show ?case by simp
next
  case (Cons t tags)
  obtain r1 k1 where step: "seo_page_tag name t (r, k) = (r1, k1)"
    by (cases "seo_page_tag name t (r, k)")
  then have "hasErrors r1 = hasErrors r \<and> hasWarnings r1 = hasWarnings r"
    by (auto simp: seo_page_tag_def split: if_splits)
  with Cons.IH [of r1 k1] Cons.prems step show ?case by simp
qed

lemma flags_seo_test_page:
  "hasErrors (seo_test_page name page r) = hasErrors r"
  "hasWarnings (seo_test_page name page r) = hasWarnings r"
proof -
  have "hasErrors (seo_test_page name page r) = hasErrors r \<and>
        hasWarnings (seo_test_page name page r) = hasWarnings r"
  proof (cases page)
    case None
    then show ?thesis by (simp add: seo_test_page_def)
  next
    case (Some content)
    obtain r' k' where f: "fold (seo_page_tag name) (match_img content) (r, 0) = (r', k')"
      by (cases "fold (seo_page_tag name) (match_img content) (r, 0)")
    from fold_seo_page_tag [OF f] show ?thesis
      using Some f by (simp add: seo_test_page_def)
  qed
  then show "hasErrors (seo_test_page name page r) = hasErrors r"
    and "hasWarnings (seo_test_page name page r) = hasWarnings r" by simp_all
qed

lemma hasErrors_testManifest:
  "hasErrors (testManifest f r) = (hasErrors r \<or> manifest_failure f)"
  by (cases f) (auto simp: testManifest_def manifest_field_def Let_def)

lemma hasErrors_testRobotsTxt:
  "hasErrors (testRobotsTxt f r) = (hasErrors r \<or> robots_failure f)"
  by (cases f) (auto simp: testRobotsTxt_def Let_def)

lemma hasErrors_testFileExists:
  "hasErrors (snd (testFileExists e n r)) = (hasErrors r \<or> \<not> e)"
  by (simp add: testFileExists_def Let_def)

lemma exit_seo_summary: "snd (seo_summary r) = (if hasErrors r then 1 else 0)"
  by (simp add: seo_summary_def Let_def)

lemma exit_seo_script: "snd (seo_script site) = (if seo_site_failure site then 1 else 0)"
  unfolding seo_script_def Let_def exit_seo_summary
  by (auto simp: hasErrors_testRobotsTxt hasErrors_testManifest flags_seo_test_page
      hasErrors_testHTMLForSEO hasErrors_testFileExists seo_site_failure_def start_def)

lemma remove_item_hard:
  "seo_hard_failure (remove_item x d) c \<Longrightarrow> seo_hard_failure d c"
  by (cases x) (auto simp: seo_hard_failure_def)

lemma remove_items_hard:
  "seo_hard_failure (fold remove_item its d) c \<Longrightarrow> seo_hard_failure d c"
  by (induction its arbitrary: d) (auto dest: remove_item_hard)

lemma remove_item_soft: "seo_soft_failure (remove_item x d)"
  by (cases x) (auto simp: seo_soft_failure_def)

lemma remove_items_soft_keep:
  "seo_soft_failure d \<Longrightarrow> seo_soft_failure (fold remove_item its d)"
  by (induction its arbitrary: d) (auto intro: remove_item_soft)

lemma remove_items_soft: "its \<noteq> [] \<Longrightarrow> seo_soft_failure (fold remove_item its d)"
  by (cases its) (auto intro: remove_items_soft_keep remove_item_soft)

text \<open>
  C10. In \<open>testHTMLForSEO\<close>, taking any of the seven items out of a document (the meta
  description, the Open Graph image, the theme colour, the manifest link, the favicon,
  the apple-touch-icon, the JSON-LD block) sets the warning flag, and it is never the
  reason for the error flag: if the error flag is set for the document without the
  items, it is set for the document with them. So a run of the script that exits with
  \<open>0\<close> still exits with \<open>0\<close> when the items are taken out of the head template.
\<close>

theorem seo_absences_only_warn:
  assumes "its \<noteq> []"
  shows "hasWarnings (testHTMLForSEO (Doc (fold remove_item its d)) n c r) \<and>
         (hasErrors (testHTMLForSEO (Doc (fold remove_item its d)) n c r)
            \<longrightarrow> hasErrors (testHTMLForSEO (Doc d) n c r)) \<and>
         (snd (seo_script (site\<lparr>head_html := Doc d\<rparr>)) = 0
            \<longrightarrow> snd (seo_script (site\<lparr>head_html := Doc (fold remove_item its d)\<rparr>)) = 0)"
proof (intro conjI impI)
  show "hasWarnings (testHTMLForSEO (Doc (fold remove_item its d)) n c r)"
    using assms by (simp add: hasWarnings_testHTMLForSEO remove_items_soft)
  show "hasErrors (testHTMLForSEO (Doc d) n c r)"
    if "hasErrors (testHTMLForSEO (Doc (fold remove_item its d)) n c r)"
    using that by (auto simp: hasErrors_testHTMLForSEO dest: remove_items_hard)
  show "snd (seo_script (site\<lparr>head_html := Doc (fold remove_item its d)\<rparr>)) = 0"
    if "snd (seo_script (site\<lparr>head_html := Doc d\<rparr>)) = 0"
    using that
    by (auto simp: exit_seo_script seo_site_failure_def split: if_splits dest: remove_items_hard)
qed

lemma good_site_exit: "snd (seo_script (good_site\<lparr>head_html := Doc good_head\<rparr>)) = 0"
  by (simp add: exit_seo_script seo_site_failure_def good_site_def good_head_def
      good_manifest_def seo_hard_failure_def js_trim_def is_space_def)

text \<open>
  All seven items taken out of a head template that passes every check: the warning
  flag is set, the error flag is not, and the script exits with \<open>0\<close>.
\<close>

theorem seo_absences_only_warn_witness:
  "hasWarnings (testHTMLForSEO (Doc (fold remove_item all_soft_items good_head))
      ''head.html template'' False start) \<and>
   \<not> hasErrors (testHTMLForSEO (Doc (fold remove_item all_soft_items good_head))
      ''head.html template'' False start) \<and>
   snd (seo_script (good_site\<lparr>head_html := Doc (fold remove_item all_soft_items good_head)\<rparr>)) = 0"
proof -
  have ne: "all_soft_items \<noteq> []" by (simp add: all_soft_items_def)
  have ok: "\<not> hasErrors (testHTMLForSEO (Doc good_head) ''head.html template'' False start)"
    by (simp add: hasErrors_testHTMLForSEO seo_hard_failure_def good_head_def start_def
        js_trim_def is_space_def)
  show ?thesis
    using seo_absences_only_warn [OF ne, of good_head "''head.html template''" False start good_site]
      ok good_site_exit by blast
qed

text \<open>
  C7. The SEO script on a site that passes every check, but whose \<open>_pages/books.html\<close>
  holds an image tag without \<open>alt=\<close>: the loop over the sample pages reports the tag with
  \<open>console.error\<close>, as every failed hard check is reported, but does not set
  \<open>hasErrors\<close>; the script then announces that all tests passed and exits with \<open>0\<close>.
  The same image inside the head template fails test 12 of \<open>testHTMLForSEO\<close>, which
  does set the flag: the script exits with \<open>1\<close>.
\<close>

theorem seo_page_image_error_exits_zero:
  "(Error, ''Books page: Image tag missing alt attribute'')
      \<in> set (out (fst (seo_script (good_site\<lparr>books_html := Some ''<img src=cover.jpg>''\<rparr>)))) \<and>
   last (out (fst (seo_script (good_site\<lparr>books_html := Some ''<img src=cover.jpg>''\<rparr>))))
      = (Log, ''All SEO and web compliance tests PASSED!'') \<and>
   snd (seo_script (good_site\<lparr>books_html := Some ''<img src=cover.jpg>''\<rparr>)) = 0 \<and>
   snd (seo_script
          (good_site\<lparr>head_html := Doc (good_head\<lparr>seo_images := [(Some ''cover.jpg'', None)]\<rparr>)\<rparr>))
     = 1"
  by code_simp

text \<open>
  C9. The accessibility script on a layout that passes every check and has one image.
  With \<open>alt=""\<close> the image is reported as missing its alt attribute and the script exits
  with \<open>1\<close>: the test \<open>!alt\<close> is true for the empty string, so the branch that counts
  decorative images is reached only for an alt of white space, with which the script
  exits with \<open>0\<close>. Without any alt attribute the script exits with \<open>1\<close>.
\<close>

theorem a11y_empty_alt_counted_missing:
  "(Error, ''Image missing alt attribute: logo.png'')
      \<in> set (out (fst (a11y_script (site_with [(Some ''logo.png'', Some [])])))) \<and>
   snd (a11y_script (site_with [(Some ''logo.png'', Some [])])) = 1 \<and>
   snd (a11y_script (site_with [(Some ''logo.png'', Some '' '')])) = 0 \<and>
   snd (a11y_script (site_with [(Some ''logo.png'', None)])) = 1"
  by code_simp

text \<open>
  A form control whose id holds a double quote: the query for its label throws, the
  tests that follow are skipped, and the handler of the exception sets the error flag.
\<close>

lemma a11y_label_query_throws:
  "testHTMLForAccessibility
     (Doc ((layout_with [])\<lparr>a_inputs :=
        [\<lparr>fc_id = Some [CHR ''a'', CHR 0x22, CHR ''b''], fc_ariaLabel = None,
          fc_ariaLabelledBy = None, fc_type = Some ''text'', fc_labelFor = SelectorThrows\<rparr>]\<rparr>))
     ''Default layout'' start
   = \<lparr>hasErrors = True, hasWarnings = False,
      out = [(Log, ''=== Testing Default layout for accessibility ===''),
             (Log, ''Checking language attributes...''), (Log, ''HTML has lang attribute''),
             (Log, ''Checking heading hierarchy...''), (Log, ''Heading hierarchy is correct''),
             (Log, ''Checking images for alt text...''), (Log, ''No images found''),
             (Log, ''Checking forms for accessibility...''), (Error, ''Error parsing'')]\<rparr>"
  by code_simp

section \<open>Properties of the shuffle\<close>

lemma mset_swap': "i < length xs \<Longrightarrow> j < length xs \<Longrightarrow> mset (swap i j xs) = mset xs"
  by (simp add: swap_def mset_swap)

lemma length_swap [simp]: "length (swap i j xs) = length xs"
  by (simp add: swap_def)

lemma shuffle_from_perm:
  "i < length xs \<Longrightarrow> mset (shuffle_from rnd i xs) = mset xs \<and> length (shuffle_from rnd i xs) = length xs"
proof (induction i arbitrary: xs)
  case 0
  then show ?case by simp
next
  case (Suc i)
  let ?j = "rnd (Suc i) mod (Suc (Suc i))"
  have j: "?j < length xs" 
  proof -
    have "?j < Suc (Suc i)" by simp
    with Suc.prems show ?thesis by linarith
  qed
  have "i < length (swap (Suc i) ?j xs)" using Suc.prems by simp
  from Suc.IH [OF this] show ?case
    using Suc.prems j by (simp add: mset_swap')
qed

text \<open>
  C8. For every sequence and every run of the random source, \<open>shuffle\<close> returns a
  permutation: the same multiset of elements and the same length. The empty and the
  singleton sequence come back as they are.
\<close>

theorem shuffle_is_permutation:
  "mset (shuffle rnd xs) = mset xs \<and> length (shuffle rnd xs) = length xs \<and>
   shuffle rnd [] = [] \<and> shuffle rnd [x] = [x]"
proof (cases xs)
  case Nil
  then show ?thesis by (simp add: shuffle_def)
next
  case (Cons y ys)
  then have "length xs - 1 < length xs" by simp
  from shuffle_from_perm [OF this] show ?thesis by (simp add: shuffle_def)
qed


end
